theory Spec2Isabelle
  imports Main "HOL-Library.Word"
begin

section \<open>The world container parser of phoenix (\<^verbatim>\<open>source/world.cc\<close>)\<close>

text \<open>
  The file \<^verbatim>\<open>world.cc\<close> holds three functions: \<^verbatim>\<open>determine_world_version\<close>, the
  two-argument \<^verbatim>\<open>world::parse\<close> and the one-argument \<^verbatim>\<open>world::parse\<close>. They are embedded
  below as functions on explicit state. A C++ exception is a value of type \<open>exn\<close> on the
  left of a sum; a loop whose end depends on the archive reader is a
  \<^theory_text>\<open>partial_function\<close> in the option monad, \<open>None\<close> meaning that the loop runs forever.

  The archive reader and the four sub-decoders are not defined in \<^verbatim>\<open>world.cc\<close>. They are
  parameters of the model (the record \<open>collaborators\<close>), so every theorem holds for every
  behaviour they can have.

  A call that returns gives its value, the buffer as it leaves it and the lines it has
  logged. A call that raises gives the exception only: where the cursor stood and what
  was logged until then is not part of the model.
\<close>

subsection \<open>Exceptions\<close>

text \<open>
  \<^verbatim>\<open>buffer_error\<close> (with its subclasses) is what the cursor throws, \<^verbatim>\<open>parser_error\<close> carries
  the resource type, the optional cause and the optional context it was constructed
  from. \<^verbatim>\<open>length_error\<close> is \<^verbatim>\<open>std::length_error\<close>; \<open>other_error\<close> stands for every other
  exception a collaborator may throw.
\<close>

datatype exn =
    buffer_error string
  | parser_error string "exn option" "string option"
  | length_error string
  | other_error string

fun is_buffer_error :: "exn \<Rightarrow> bool" where
  "is_buffer_error (buffer_error d) = True"
| "is_buffer_error (parser_error r c x) = False"
| "is_buffer_error (length_error d) = False"
| "is_buffer_error (other_error d) = False"

subsection \<open>The byte cursor\<close>

text \<open>
  Modelled from the spec: the class \<^verbatim>\<open>buffer\<close> (the Byte Cursor of the specification) is
  not defined in \<^verbatim>\<open>world.cc\<close>. It is a position-tracking view over an immutable byte region
  with fixed-width reads, forward skips, open-ended slices from the current position and
  independent duplicates; reads past the end fail with an out-of-bounds error. Multi-byte
  values are taken least significant byte first, which the specification leaves open.
\<close>

record buffer =
  bytes :: "8 word list"
  position :: nat

definition remaining :: "buffer \<Rightarrow> nat" where
  "remaining b = length (bytes b) - position b"

definition underflow :: exn where
  "underflow = buffer_error ''buffer underflow''"

fun le_value :: "8 word list \<Rightarrow> nat" where
  "le_value [] = 0"
| "le_value (x # xs) = unat x + 256 * le_value xs"

definition get_bytes :: "nat \<Rightarrow> buffer \<Rightarrow> exn + (8 word list \<times> buffer)" where
  "get_bytes n b =
     (if remaining b < n then Inl underflow
      else Inr (take n (drop (position b) (bytes b)), b\<lparr>position := position b + n\<rparr>))"

definition get_ushort :: "buffer \<Rightarrow> exn + (16 word \<times> buffer)" where
  "get_ushort b =
     (case get_bytes 2 b of
        Inl e \<Rightarrow> Inl e
      | Inr (bs, b') \<Rightarrow> Inr (of_nat (le_value bs), b'))"

definition get_uint :: "buffer \<Rightarrow> exn + (32 word \<times> buffer)" where
  "get_uint b =
     (case get_bytes 4 b of
        Inl e \<Rightarrow> Inl e
      | Inr (bs, b') \<Rightarrow> Inr (of_nat (le_value bs), b'))"

definition skip :: "nat \<Rightarrow> buffer \<Rightarrow> exn + buffer" where
  "skip n b =
     (if remaining b < n then Inl underflow
      else Inr (b\<lparr>position := position b + n\<rparr>))"

definition slice :: "buffer \<Rightarrow> buffer" where
  "slice b = \<lparr>bytes = drop (position b) (bytes b), position = 0\<rparr>"

definition duplicate :: "buffer \<Rightarrow> buffer" where
  "duplicate b = \<lparr>bytes = bytes b, position = position b\<rparr>"

subsection \<open>Data of the archive and of the world\<close>

datatype game_version = gothic_1 | gothic_2

record archive_object =
  object_name :: string
  class_name :: string
  version :: "16 word"
  index :: "32 word"

text \<open>The value of \<^verbatim>\<open>archive_object chnk {}\<close>.\<close>

definition empty_object :: archive_object where
  "empty_object = \<lparr>object_name = [], class_name = [], version = 0, index = 0\<rparr>"

text \<open>
  An archive reader holds a reference to the buffer it was opened on (\<open>input\<close>) and its
  own private state. The caller's buffer and the reader's \<open>input\<close> are the same object:
  a read through either moves the one cursor.
\<close>

record 'r archive_reader =
  input :: buffer
  reader_state :: 'r

record 't bsp_tree =
  leaf_polygons :: "32 word list"
  tree_data :: 't

text \<open>
  The members of \<^verbatim>\<open>world\<close> that \<^verbatim>\<open>world::parse\<close> assigns. \<open>None\<close> is the
  default-constructed member that no section has assigned yet.
\<close>

record ('v, 'm, 't, 'w) world =
  world_vobs :: "'v list"
  world_mesh :: "'m option"
  world_bsp_tree :: "'t bsp_tree option"
  world_way_net :: "'w option"

definition empty_world :: "('v, 'm, 't, 'w) world" where
  "empty_world = \<lparr>world_vobs = [], world_mesh = None, world_bsp_tree = None,
     world_way_net = None\<rparr>"

text \<open>
  The log macros, with the format string and the section header whose four fields are
  the arguments.
\<close>

datatype log_entry =
    PX_LOGE string
  | PX_LOGW string archive_object
  | PX_LOGI string archive_object

subsection \<open>The collaborators\<close>

text \<open>
  \<open>read_object_begin\<close> receives the caller's \<^verbatim>\<open>archive_object\<close> and returns it as the
  reader leaves it (\<^verbatim>\<open>world.cc\<close> ignores the boolean the call returns).
  \<open>mesh_parse\<close> works on the local slice \<^verbatim>\<open>mesh_data\<close>, whose final position nobody reads.
\<close>

record ('r, 'v, 'm, 't, 'w) collaborators =
  archive_reader_open :: "buffer \<Rightarrow> exn + 'r archive_reader"
  read_object_begin ::
    "archive_object \<Rightarrow> 'r archive_reader \<Rightarrow> exn + (archive_object \<times> 'r archive_reader)"
  read_object_end :: "'r archive_reader \<Rightarrow> exn + (bool \<times> 'r archive_reader)"
  skip_object :: "bool \<Rightarrow> 'r archive_reader \<Rightarrow> exn + 'r archive_reader"
  read_int :: "'r archive_reader \<Rightarrow> exn + (32 word \<times> 'r archive_reader)"
  bsp_tree_parse :: "buffer \<Rightarrow> 32 word \<Rightarrow> exn + ('t bsp_tree \<times> buffer)"
  mesh_parse :: "buffer \<Rightarrow> 32 word list \<Rightarrow> exn + 'm"
  parse_vob_tree ::
    "'r archive_reader \<Rightarrow> game_version \<Rightarrow> exn + ('v option \<times> 'r archive_reader)"
  way_net_parse :: "'r archive_reader \<Rightarrow> exn + ('w \<times> 'r archive_reader)"

subsection \<open>\<^verbatim>\<open>determine_world_version\<close> (lines 10 to 45)\<close>

definition BSP_VERSION_G1 :: "32 word" where
  "BSP_VERSION_G1 = 0x2090000"

definition BSP_VERSION_G2 :: "32 word" where
  "BSP_VERSION_G2 = 0x4090000"

datatype ('a, 'c) flow = Return 'a | Continue 'c

text \<open>
  The body of the \<^verbatim>\<open>while\<close> loop, lines 28 to 40. \<^verbatim>\<open>buf\<close> is the buffer the reader
  was opened on, so \<^verbatim>\<open>buf.get_uint()\<close> reads at the reader's cursor.
\<close>

definition scan_body ::
  "('r, 'v, 'm, 't, 'w) collaborators \<Rightarrow> archive_object \<Rightarrow> 'r archive_reader \<Rightarrow>
     exn + ((game_version, archive_object) flow \<times> 'r archive_reader)" where
  "scan_body env chnk archive =
     (case read_object_begin env chnk archive of
        Inl e \<Rightarrow> Inl e
      | Inr (chnk', archive') \<Rightarrow>
          if object_name chnk' = ''MeshAndBsp'' then
            (case get_uint (input archive') of
               Inl e \<Rightarrow> Inl e
             | Inr (bsp_version, buf') \<Rightarrow>
                 if bsp_version = BSP_VERSION_G2
                 then Inr (Return gothic_2, archive'\<lparr>input := buf'\<rparr>)
                 else Inr (Return gothic_1, archive'\<lparr>input := buf'\<rparr>))
          else
            (case skip_object env True archive' of
               Inl e \<Rightarrow> Inl e
             | Inr archive'' \<Rightarrow> Inr (Continue chnk', archive'')))"

text \<open>
  The \<^verbatim>\<open>while\<close> loop and the two lines after it, lines 27 to 44. The result is the game
  version, the buffer as the call leaves it, and the log lines written.
\<close>

partial_function (option) scan_loop ::
  "('r, 'v, 'm, 't, 'w) collaborators \<Rightarrow> archive_object \<Rightarrow> 'r archive_reader \<Rightarrow>
     (exn + game_version \<times> buffer \<times> log_entry list) option" where
  "scan_loop env chnk archive =
     (case read_object_end env archive of
        Inl e \<Rightarrow> Some (Inl e)
      | Inr (ended, archive') \<Rightarrow>
          if ended then
            Some (Inr (gothic_1, input archive',
              [PX_LOGE ''world: failed to determine world version. Assuming Gothic 1.'']))
          else
            (case scan_body env chnk archive' of
               Inl e \<Rightarrow> Some (Inl e)
             | Inr (Return v, archive'') \<Rightarrow> Some (Inr (v, input archive'', []))
             | Inr (Continue chnk', archive'') \<Rightarrow> scan_loop env chnk' archive''))"

definition determine_world_version ::
  "('r, 'v, 'm, 't, 'w) collaborators \<Rightarrow> buffer \<Rightarrow>
     (exn + game_version \<times> buffer \<times> log_entry list) option" where
  "determine_world_version env buf =
     (case archive_reader_open env buf of
        Inl e \<Rightarrow> Some (Inl e)
      | Inr archive \<Rightarrow>
          (case read_object_begin env empty_object archive of
             Inl e \<Rightarrow> Some (Inl e)
           | Inr (chnk, archive') \<Rightarrow> scan_loop env chnk archive'))"

subsection \<open>\<^verbatim>\<open>world::parse(buffer&, game_version)\<close> (lines 47 to 111)\<close>

text \<open>
  The \<^verbatim>\<open>do\<close>/\<^verbatim>\<open>while\<close> loop of lines 76 to 79. Every round reads six bytes, so the loop
  ends on every buffer: with the cursor behind a chunk tagged \<^verbatim>\<open>0xB060\<close>, or with the
  exception of the read that left the buffer.
\<close>

function skip_chunks :: "buffer \<Rightarrow> exn + buffer" where
  "skip_chunks b =
     (case get_ushort b of
        Inl e \<Rightarrow> Inl e
      | Inr (chunk_type, b1) \<Rightarrow>
          (case get_uint b1 of
             Inl e \<Rightarrow> Inl e
           | Inr (n, b2) \<Rightarrow>
               (case skip (unat n) b2 of
                  Inl e \<Rightarrow> Inl e
                | Inr b3 \<Rightarrow> if chunk_type \<noteq> 0xB060 then skip_chunks b3 else Inr b3)))"
  by pat_completeness auto
termination
proof (relation "measure remaining")
  show "wf (measure remaining)" by simp
next
  fix b :: buffer and x2 :: "16 word \<times> buffer" and chunk_type b1
    and x2a :: "32 word \<times> buffer" and n b2 b3
  assume "get_ushort b = Inr x2" and "(chunk_type, b1) = x2"
    and "get_uint b1 = Inr x2a" and "(n, b2) = x2a" and "skip (unat n) b2 = Inr b3"
  then have "remaining b3 < remaining b"
    by (auto simp: get_ushort_def get_uint_def get_bytes_def skip_def remaining_def
        split: if_splits)
  then show "(b3, b) \<in> measure remaining" by simp
qed

declare skip_chunks.simps [simp del]

text \<open>The branch for \<^verbatim>\<open>MeshAndBsp\<close>, lines 70 to 82.\<close>

definition mesh_and_bsp_section ::
  "('r, 'v, 'm, 't, 'w) collaborators \<Rightarrow> ('v, 'm, 't, 'w) world \<Rightarrow> 'r archive_reader \<Rightarrow>
     exn + (('v, 'm, 't, 'w) world \<times> 'r archive_reader)" where
  "mesh_and_bsp_section env wld archive =
     (case get_uint (input archive) of
        Inl e \<Rightarrow> Inl e
      | Inr (bsp_version, in1) \<Rightarrow>
          (case get_uint in1 of
             Inl e \<Rightarrow> Inl e
           | Inr (declared_size, in2) \<Rightarrow>
               let mesh_data = slice in2 in
               (case skip_chunks in2 of
                  Inl e \<Rightarrow> Inl e
                | Inr in3 \<Rightarrow>
                    (case bsp_tree_parse env in3 bsp_version of
                       Inl e \<Rightarrow> Inl e
                     | Inr (tree, in4) \<Rightarrow>
                         (case mesh_parse env mesh_data (leaf_polygons tree) of
                            Inl e \<Rightarrow> Inl e
                          | Inr m \<Rightarrow>
                              Inr (wld\<lparr>world_bsp_tree := Some tree, world_mesh := Some m\<rparr>,
                                   archive\<lparr>input := in4\<rparr>))))))"

text \<open>
  \<^verbatim>\<open>world_vobs.reserve(count)\<close>, line 85. The \<^verbatim>\<open>int32_t\<close> count is converted to the
  unsigned \<^verbatim>\<open>size_t\<close> parameter of \<^verbatim>\<open>std::vector::reserve\<close>, which throws
  \<^verbatim>\<open>std::length_error\<close> above \<^verbatim>\<open>max_size()\<close> and otherwise leaves the elements as they
  are. \<^verbatim>\<open>size_t\<close> has 64 bits and \<^verbatim>\<open>max_size()\<close> is \<^verbatim>\<open>PTRDIFF_MAX\<close> over the eight bytes of
  a pointer; memory is taken to suffice for every request below that.
\<close>

definition size_t_of_int32 :: "32 word \<Rightarrow> nat" where
  "size_t_of_int32 c = nat (sint c mod 2 ^ 64)"

definition vector_max_size :: nat where
  "vector_max_size = (2 ^ 63 - 1) div 8"

definition reserve :: "nat \<Rightarrow> 'a list \<Rightarrow> exn + 'a list" where
  "reserve n xs = (if vector_max_size < n then Inl (length_error ''vector::reserve'') else Inr xs)"

text \<open>
  The \<^verbatim>\<open>for\<close> loop of lines 87 to 92, on the values of the \<^verbatim>\<open>int32_t\<close> variables
  \<^verbatim>\<open>i\<close> and \<^verbatim>\<open>count\<close> (\<^verbatim>\<open>++i\<close> stays below \<^verbatim>\<open>count\<close>, so it does not overflow).
\<close>

function vob_loop ::
  "('r, 'v, 'm, 't, 'w) collaborators \<Rightarrow> game_version \<Rightarrow> int \<Rightarrow> int \<Rightarrow>
     'v list \<times> 'r archive_reader \<Rightarrow> exn + ('v list \<times> 'r archive_reader)" where
  "vob_loop env gv count i (vobs, archive) =
     (if i < count then
        (case parse_vob_tree env archive gv of
           Inl e \<Rightarrow> Inl e
         | Inr (child, archive') \<Rightarrow>
             (case child of
                None \<Rightarrow> vob_loop env gv count (i + 1) (vobs, archive')
              | Some c \<Rightarrow> vob_loop env gv count (i + 1) (vobs @ [c], archive')))
      else Inr (vobs, archive))"
  by pat_completeness auto
termination
  by (relation "measure (\<lambda>(env, gv, count, i, st). nat (count - i))") auto

declare vob_loop.simps [simp del]

text \<open>The branch for \<^verbatim>\<open>VobTree\<close>, lines 84 to 92.\<close>

definition vob_tree_section ::
  "('r, 'v, 'm, 't, 'w) collaborators \<Rightarrow> game_version \<Rightarrow> ('v, 'm, 't, 'w) world \<Rightarrow>
     'r archive_reader \<Rightarrow> exn + (('v, 'm, 't, 'w) world \<times> 'r archive_reader)" where
  "vob_tree_section env gv wld archive =
     (case read_int env archive of
        Inl e \<Rightarrow> Inl e
      | Inr (count, archive') \<Rightarrow>
          (case reserve (size_t_of_int32 count) (world_vobs wld) of
             Inl e \<Rightarrow> Inl e
           | Inr vobs \<Rightarrow>
               (case vob_loop env gv (sint count) 0 (vobs, archive') of
                  Inl e \<Rightarrow> Inl e
                | Inr (vobs', archive'') \<Rightarrow> Inr (wld\<lparr>world_vobs := vobs'\<rparr>, archive''))))"

text \<open>The branch for \<^verbatim>\<open>WayNet\<close>, line 94.\<close>

definition way_net_section ::
  "('r, 'v, 'm, 't, 'w) collaborators \<Rightarrow> ('v, 'm, 't, 'w) world \<Rightarrow> 'r archive_reader \<Rightarrow>
     exn + (('v, 'm, 't, 'w) world \<times> 'r archive_reader)" where
  "way_net_section env wld archive =
     (case way_net_parse env archive of
        Inl e \<Rightarrow> Inl e
      | Inr (net, archive') \<Rightarrow> Inr (wld\<lparr>world_way_net := Some net\<rparr>, archive'))"

text \<open>The \<^verbatim>\<open>if\<close>/\<^verbatim>\<open>else if\<close> chain on the section name, lines 69 to 95.\<close>

definition dispatch_section ::
  "('r, 'v, 'm, 't, 'w) collaborators \<Rightarrow> game_version \<Rightarrow> archive_object \<Rightarrow>
     ('v, 'm, 't, 'w) world \<Rightarrow> 'r archive_reader \<Rightarrow>
     exn + (('v, 'm, 't, 'w) world \<times> 'r archive_reader)" where
  "dispatch_section env gv chnk wld archive =
     (if object_name chnk = ''MeshAndBsp'' then mesh_and_bsp_section env wld archive
      else if object_name chnk = ''VobTree'' then vob_tree_section env gv wld archive
      else if object_name chnk = ''WayNet'' then way_net_section env wld archive
      else Inr (wld, archive))"

text \<open>Closing the section, lines 97 to 104.\<close>

definition close_section ::
  "('r, 'v, 'm, 't, 'w) collaborators \<Rightarrow> archive_object \<Rightarrow> 'r archive_reader \<Rightarrow>
     exn + ('r archive_reader \<times> log_entry list)" where
  "close_section env chnk archive =
     (case read_object_end env archive of
        Inl e \<Rightarrow> Inl e
      | Inr (ended, archive') \<Rightarrow>
          if \<not> ended then
            (case skip_object env True archive' of
               Inl e \<Rightarrow> Inl e
             | Inr archive'' \<Rightarrow>
                 Inr (archive'', [PX_LOGW ''world: object [{} {} {} {}] not fully parsed'' chnk]))
          else Inr (archive', []))"

text \<open>
  The body of the outer \<^verbatim>\<open>while\<close> loop, lines 62 to 104. The state of the loop is the
  world under construction, the reader and the log written so far.
\<close>

definition section_body ::
  "('r, 'v, 'm, 't, 'w) collaborators \<Rightarrow> game_version \<Rightarrow> archive_object \<Rightarrow>
     ('v, 'm, 't, 'w) world \<times> 'r archive_reader \<times> log_entry list \<Rightarrow>
     exn + (archive_object \<times> ('v, 'm, 't, 'w) world \<times> 'r archive_reader \<times> log_entry list)"
  where
  "section_body env gv chnk st =
     (case st of (wld, archive, lg) \<Rightarrow>
        (case read_object_begin env chnk archive of
           Inl e \<Rightarrow> Inl e
         | Inr (chnk', archive1) \<Rightarrow>
             (case dispatch_section env gv chnk' wld archive1 of
                Inl e \<Rightarrow> Inl e
              | Inr (wld', archive2) \<Rightarrow>
                  (case close_section env chnk' archive2 of
                     Inl e \<Rightarrow> Inl e
                   | Inr (archive3, warn) \<Rightarrow>
                       Inr (chnk', wld', archive3,
                            lg @ [PX_LOGI ''world: parsing object [{} {} {} {}]'' chnk'] @ warn)))))"

text \<open>The outer \<^verbatim>\<open>while\<close> loop and the \<^verbatim>\<open>return\<close>, lines 61 to 107.\<close>

partial_function (option) section_loop ::
  "('r, 'v, 'm, 't, 'w) collaborators \<Rightarrow> game_version \<Rightarrow> archive_object \<Rightarrow>
     ('v, 'm, 't, 'w) world \<times> 'r archive_reader \<times> log_entry list \<Rightarrow>
     (exn + ('v, 'm, 't, 'w) world \<times> buffer \<times> log_entry list) option" where
  "section_loop env gv chnk st =
     (case st of (wld, archive, lg) \<Rightarrow>
        (case read_object_end env archive of
           Inl e \<Rightarrow> Some (Inl e)
         | Inr (ended, archive') \<Rightarrow>
             if ended then Some (Inr (wld, input archive', lg))
             else
               (case section_body env gv chnk (wld, archive', lg) of
                  Inl e \<Rightarrow> Some (Inl e)
                | Inr (chnk', st') \<Rightarrow> section_loop env gv chnk' st')))"

definition quote :: char where
  "quote = CHR 0x27"

text \<open>
  The text that \<^verbatim>\<open>fmt::format\<close> builds in line 58 from the class name.
\<close>

definition chunk_expected :: "string \<Rightarrow> string" where
  "chunk_expected got =
     [quote] @ ''oCWorld:zCWorld'' @ [quote] @ '' chunk expected, got '' @ [quote] @ got @ [quote]"

text \<open>The \<^verbatim>\<open>try\<close> block, lines 49 to 107.\<close>

definition world_parse_try ::
  "('r, 'v, 'm, 't, 'w) collaborators \<Rightarrow> buffer \<Rightarrow> game_version \<Rightarrow>
     (exn + ('v, 'm, 't, 'w) world \<times> buffer \<times> log_entry list) option" where
  "world_parse_try env inb gv =
     (case archive_reader_open env inb of
        Inl e \<Rightarrow> Some (Inl e)
      | Inr archive \<Rightarrow>
          (case read_object_begin env empty_object archive of
             Inl e \<Rightarrow> Some (Inl e)
           | Inr (chnk, archive') \<Rightarrow>
               if class_name chnk \<noteq> ''oCWorld:zCWorld''
               then Some (Inl (parser_error ''world'' None (Some (chunk_expected (class_name chnk)))))
               else section_loop env gv chnk (empty_world, archive', [])))"

text \<open>
  The \<^verbatim>\<open>catch\<close> clause, lines 108 to 110: a \<^verbatim>\<open>buffer_error\<close> is thrown again inside a
  \<^verbatim>\<open>parser_error\<close>, every other exception passes.
\<close>

definition catch_buffer_error :: "exn + 'a \<Rightarrow> exn + 'a" where
  "catch_buffer_error r =
     (case r of
        Inl exc \<Rightarrow>
          if is_buffer_error exc
          then Inl (parser_error ''world'' (Some exc) (Some ''eof reached''))
          else Inl exc
      | Inr x \<Rightarrow> Inr x)"

definition world_parse ::
  "('r, 'v, 'm, 't, 'w) collaborators \<Rightarrow> buffer \<Rightarrow> game_version \<Rightarrow>
     (exn + ('v, 'm, 't, 'w) world \<times> buffer \<times> log_entry list) option" where
  "world_parse env inb gv = map_option catch_buffer_error (world_parse_try env inb gv)"

subsection \<open>\<^verbatim>\<open>world::parse(buffer&)\<close> (lines 113 to 116)\<close>

text \<open>
  The argument is a reference to the caller's buffer, and \<^verbatim>\<open>buf.duplicate()\<close> is a second
  buffer object, a temporary. To tell the two apart the buffers live in a store, a list
  whose indices are the addresses. A call that takes a buffer by reference works on the
  buffer at the address and writes back the buffer as it leaves it.
\<close>

definition call_by_reference ::
  "(buffer \<Rightarrow> (exn + 'a \<times> buffer \<times> log_entry list) option) \<Rightarrow> buffer list \<Rightarrow> nat \<Rightarrow>
     (exn + 'a \<times> buffer list \<times> log_entry list) option" where
  "call_by_reference f store p =
     (if p < length store then
        (case f (store ! p) of
           None \<Rightarrow> None
         | Some (Inl e) \<Rightarrow> Some (Inl e)
         | Some (Inr (x, b, lg)) \<Rightarrow> Some (Inr (x, store[p := b], lg)))
      else Some (Inl (other_error ''dangling reference'')))"

text \<open>
  Line 114 creates the temporary behind the buffers of the store, passes its address to
  \<^verbatim>\<open>determine_world_version\<close> and destroys it; line 115 passes the address \<^verbatim>\<open>buf\<close>.
\<close>

definition world_parse_entry ::
  "('r, 'v, 'm, 't, 'w) collaborators \<Rightarrow> buffer list \<Rightarrow> nat \<Rightarrow>
     (exn + ('v, 'm, 't, 'w) world \<times> buffer list \<times> log_entry list) option" where
  "world_parse_entry env store buf =
     (if buf < length store then
        let temporary = length store;
            store1 = store @ [duplicate (store ! buf)]
        in
          (case call_by_reference (determine_world_version env) store1 temporary of
             None \<Rightarrow> None
           | Some (Inl e) \<Rightarrow> Some (Inl e)
           | Some (Inr (gv, store2, lg)) \<Rightarrow>
               (case call_by_reference (\<lambda>b. world_parse env b gv) (butlast store2) buf of
                  None \<Rightarrow> None
                | Some (Inl e) \<Rightarrow> Some (Inl e)
                | Some (Inr (wld, store3, lg')) \<Rightarrow> Some (Inr (wld, store3, lg @ lg'))))
      else Some (Inl (other_error ''dangling reference'')))"

subsection \<open>Vocabulary of the properties\<close>

text \<open>
  \<open>skipped_sections env n chnk archive\<close> is the state of the loop of
  \<^verbatim>\<open>determine_world_version\<close> after \<open>n\<close> rounds, each of which found a section that is
  not named \<^verbatim>\<open>MeshAndBsp\<close> and skipped it; \<open>None\<close> when the first \<open>n\<close> rounds are not of
  this kind.
\<close>

fun skipped_sections ::
  "('r, 'v, 'm, 't, 'w) collaborators \<Rightarrow> nat \<Rightarrow> archive_object \<Rightarrow> 'r archive_reader \<Rightarrow>
     (archive_object \<times> 'r archive_reader) option" where
  "skipped_sections env 0 chnk archive = Some (chnk, archive)"
| "skipped_sections env (Suc n) chnk archive =
     (case read_object_end env archive of
        Inl e \<Rightarrow> None
      | Inr (ended, archive') \<Rightarrow>
          if ended then None
          else
            (case scan_body env chnk archive' of
               Inl e \<Rightarrow> None
             | Inr (Return v, archive'') \<Rightarrow> None
             | Inr (Continue chnk', archive'') \<Rightarrow> skipped_sections env n chnk' archive''))"

text \<open>
  \<open>parsed_sections env gv n chnk st\<close> is the state of the loop of \<^verbatim>\<open>world::parse\<close> after
  \<open>n\<close> rounds that raised nothing; \<open>None\<close> when the root object ends or a round raises
  before that.
\<close>

fun parsed_sections ::
  "('r, 'v, 'm, 't, 'w) collaborators \<Rightarrow> game_version \<Rightarrow> nat \<Rightarrow> archive_object \<Rightarrow>
     ('v, 'm, 't, 'w) world \<times> 'r archive_reader \<times> log_entry list \<Rightarrow>
     (archive_object \<times> ('v, 'm, 't, 'w) world \<times> 'r archive_reader \<times> log_entry list) option"
  where
  "parsed_sections env gv 0 chnk st = Some (chnk, st)"
| "parsed_sections env gv (Suc n) chnk st =
     (case st of (wld, archive, lg) \<Rightarrow>
        (case read_object_end env archive of
           Inl e \<Rightarrow> None
         | Inr (ended, archive') \<Rightarrow>
             if ended then None
             else
               (case section_body env gv chnk (wld, archive', lg) of
                  Inl e \<Rightarrow> None
                | Inr (chnk', st') \<Rightarrow> parsed_sections env gv n chnk' st')))"

text \<open>
  Line 63 logs every section that the loop of \<^verbatim>\<open>world::parse\<close> enters, so the log tells
  whether a section named \<^verbatim>\<open>MeshAndBsp\<close> was among them.
\<close>

definition marker_logged :: "log_entry list \<Rightarrow> bool" where
  "marker_logged lg \<longleftrightarrow>
     (\<exists>c. PX_LOGI ''world: parsing object [{} {} {} {}]'' c \<in> set lg \<and>
          object_name c = ''MeshAndBsp'')"

text \<open>
  \<open>raised_at env chnk archive e\<close>: one round of the loop of \<^verbatim>\<open>determine_world_version\<close>,
  started with \<open>chnk\<close> and \<open>archive\<close>, comes to an operation that raises \<open>e\<close>: ending
  the object, or beginning the next one, or the 32-bit read when the section is named
  \<^verbatim>\<open>MeshAndBsp\<close>, or skipping the section when it is not.
\<close>

definition raised_at ::
  "('r, 'v, 'm, 't, 'w) collaborators \<Rightarrow> archive_object \<Rightarrow> 'r archive_reader \<Rightarrow> exn \<Rightarrow> bool"
  where
  "raised_at env chnk archive e \<longleftrightarrow>
     read_object_end env archive = Inl e \<or>
     (\<exists>archive'. read_object_end env archive = Inr (False, archive') \<and>
        (read_object_begin env chnk archive' = Inl e \<or>
         (\<exists>chnk' archive''. read_object_begin env chnk archive' = Inr (chnk', archive'') \<and>
            (if object_name chnk' = ''MeshAndBsp''
             then get_uint (input archive'') = Inl e
             else skip_object env True archive'' = Inl e))))"

text \<open>
  \<open>raised_in env buf e\<close>: an operation that \<^verbatim>\<open>determine_world_version\<close> calls on \<open>buf\<close>
  raises \<open>e\<close>: opening the archive, or beginning the root object, or an operation of the
  round that follows some number of skipped sections.
\<close>

definition raised_in ::
  "('r, 'v, 'm, 't, 'w) collaborators \<Rightarrow> buffer \<Rightarrow> exn \<Rightarrow> bool" where
  "raised_in env buf e \<longleftrightarrow>
     archive_reader_open env buf = Inl e \<or>
     (\<exists>archive. archive_reader_open env buf = Inr archive \<and>
        (read_object_begin env empty_object archive = Inl e \<or>
         (\<exists>chnk archive' n chnk' archive''.
            read_object_begin env empty_object archive = Inr (chnk, archive') \<and>
            skipped_sections env n chnk archive' = Some (chnk', archive'') \<and>
            raised_at env chnk' archive'' e)))"

text \<open>
  The skipping of the filler chunks in the words of the specification: read a 16-bit
  chunk type, read a 32-bit length, skip that many bytes, and stop behind the chunk whose
  type is \<^verbatim>\<open>0xB060\<close>. \<open>filler_chunks b b'\<close> holds when this leads from \<open>b\<close> to \<open>b'\<close>.
\<close>

inductive filler_chunks :: "buffer \<Rightarrow> buffer \<Rightarrow> bool" where
  terminator:
    "get_ushort b = Inr (0xB060, b1) \<Longrightarrow> get_uint b1 = Inr (n, b2) \<Longrightarrow>
     skip (unat n) b2 = Inr b3 \<Longrightarrow> filler_chunks b b3"
| filler:
    "get_ushort b = Inr (chunk_type, b1) \<Longrightarrow> chunk_type \<noteq> 0xB060 \<Longrightarrow>
     get_uint b1 = Inr (n, b2) \<Longrightarrow> skip (unat n) b2 = Inr b3 \<Longrightarrow>
     filler_chunks b3 b4 \<Longrightarrow> filler_chunks b b4"

text \<open>
  The bytes of a chunk as the skipping reads them: the 16-bit type, the 32-bit length of
  the payload and the payload, least significant byte first; and the bytes of a sequence
  of chunks.
\<close>

fun le_bytes :: "nat \<Rightarrow> nat \<Rightarrow> 8 word list" where
  "le_bytes 0 v = []"
| "le_bytes (Suc n) v = of_nat (v mod 256) # le_bytes n (v div 256)"

definition chunk_bytes :: "16 word \<Rightarrow> 8 word list \<Rightarrow> 8 word list" where
  "chunk_bytes t payload = le_bytes 2 (unat t) @ le_bytes 4 (length payload) @ payload"

fun chunks_bytes :: "(16 word \<times> 8 word list) list \<Rightarrow> 8 word list" where
  "chunks_bytes [] = []"
| "chunks_bytes ((t, payload) # cs) = chunk_bytes t payload @ chunks_bytes cs"

text \<open>
  The results of \<open>n\<close> calls of the VOB-subtree decoder one after the other, each on the
  reader as the call before left it.
\<close>

fun decoder_results ::
  "('r, 'v, 'm, 't, 'w) collaborators \<Rightarrow> game_version \<Rightarrow> nat \<Rightarrow> 'r archive_reader \<Rightarrow>
     exn + ('v option list \<times> 'r archive_reader)" where
  "decoder_results env gv 0 archive = Inr ([], archive)"
| "decoder_results env gv (Suc n) archive =
     (case parse_vob_tree env archive gv of
        Inl e \<Rightarrow> Inl e
      | Inr (child, archive') \<Rightarrow>
          (case decoder_results env gv n archive' of
             Inl e \<Rightarrow> Inl e
           | Inr (rs, archive'') \<Rightarrow> Inr (child # rs, archive'')))"

text \<open>The nodes among the results, in their order.\<close>

fun nodes :: "'v option list \<Rightarrow> 'v list" where
  "nodes [] = []"
| "nodes (None # rs) = nodes rs"
| "nodes (Some v # rs) = v # nodes rs"

subsection \<open>A small archive reader and small decoders\<close>

text \<open>
  To run the functions on concrete bytes, the parameters are instantiated with a reader
  that takes the section headers from a table of contents (each header with the position
  at which its object ends) and keeps the ends of the open objects on a stack, as a
  reader of self-delimiting objects does. The decoders read one byte each.
\<close>

record toc_state =
  pending :: "(archive_object \<times> nat) list"
  open_ends :: "nat list"

definition toc_open ::
  "(archive_object \<times> nat) list \<Rightarrow> buffer \<Rightarrow> exn + toc_state archive_reader" where
  "toc_open toc b = Inr \<lparr>input = b, reader_state = \<lparr>pending = toc, open_ends = []\<rparr>\<rparr>"

definition toc_begin ::
  "archive_object \<Rightarrow> toc_state archive_reader \<Rightarrow>
     exn + (archive_object \<times> toc_state archive_reader)" where
  "toc_begin chnk a =
     (case pending (reader_state a) of
        [] \<Rightarrow> Inr (chnk, a)
      | (h, e) # rest \<Rightarrow>
          Inr (h, a\<lparr>reader_state :=
                 \<lparr>pending = rest, open_ends = e # open_ends (reader_state a)\<rparr>\<rparr>))"

definition toc_end :: "toc_state archive_reader \<Rightarrow> exn + (bool \<times> toc_state archive_reader)" where
  "toc_end a =
     (case open_ends (reader_state a) of
        [] \<Rightarrow> Inr (True, a)
      | e # es \<Rightarrow>
          if position (input a) = e
          then Inr (True, a\<lparr>reader_state := (reader_state a)\<lparr>open_ends := es\<rparr>\<rparr>)
          else Inr (False, a))"

definition toc_skip ::
  "bool \<Rightarrow> toc_state archive_reader \<Rightarrow> exn + toc_state archive_reader" where
  "toc_skip skip_current a =
     (case open_ends (reader_state a) of
        [] \<Rightarrow> Inl (other_error ''no open object'')
      | e # es \<Rightarrow>
          if length (bytes (input a)) < e then Inl underflow
          else Inr (a\<lparr>input := (input a)\<lparr>position := e\<rparr>,
                      reader_state := (reader_state a)\<lparr>open_ends := es\<rparr>\<rparr>))"

definition toc_read_int ::
  "toc_state archive_reader \<Rightarrow> exn + (32 word \<times> toc_state archive_reader)" where
  "toc_read_int a =
     (case get_uint (input a) of
        Inl e \<Rightarrow> Inl e
      | Inr (n, b) \<Rightarrow> Inr (n, a\<lparr>input := b\<rparr>))"

definition byte_tree :: "buffer \<Rightarrow> 32 word \<Rightarrow> exn + (32 word bsp_tree \<times> buffer)" where
  "byte_tree b v =
     (case get_bytes 1 b of
        Inl e \<Rightarrow> Inl e
      | Inr (bs, b') \<Rightarrow> Inr (\<lparr>leaf_polygons = [of_nat (le_value bs)], tree_data = v\<rparr>, b'))"

definition byte_mesh :: "buffer \<Rightarrow> 32 word list \<Rightarrow> exn + (8 word list \<times> 32 word list)" where
  "byte_mesh b polys =
     (case get_bytes 1 b of
        Inl e \<Rightarrow> Inl e
      | Inr (bs, b') \<Rightarrow> Inr (bs, polys))"

definition byte_vob ::
  "toc_state archive_reader \<Rightarrow> game_version \<Rightarrow>
     exn + ((8 word list \<times> game_version) option \<times> toc_state archive_reader)" where
  "byte_vob a gv =
     (case get_bytes 1 (input a) of
        Inl e \<Rightarrow> Inl e
      | Inr (bs, b') \<Rightarrow> Inr (if bs = [0] then None else Some (bs, gv), a\<lparr>input := b'\<rparr>))"

definition byte_way_net ::
  "toc_state archive_reader \<Rightarrow> exn + (8 word list \<times> toc_state archive_reader)" where
  "byte_way_net a =
     (case get_bytes 1 (input a) of
        Inl e \<Rightarrow> Inl e
      | Inr (bs, b') \<Rightarrow> Inr (bs, a\<lparr>input := b'\<rparr>))"

definition toc_env ::
  "(archive_object \<times> nat) list \<Rightarrow>
     (toc_state, 8 word list \<times> game_version, 8 word list \<times> 32 word list, 32 word,
      8 word list) collaborators" where
  "toc_env toc =
     \<lparr>archive_reader_open = toc_open toc, read_object_begin = toc_begin,
      read_object_end = toc_end, skip_object = toc_skip, read_int = toc_read_int,
      bsp_tree_parse = byte_tree, mesh_parse = byte_mesh, parse_vob_tree = byte_vob,
      way_net_parse = byte_way_net\<rparr>"

definition section_header :: "string \<Rightarrow> string \<Rightarrow> archive_object" where
  "section_header name cls = \<lparr>object_name = name, class_name = cls, version = 0, index = 0\<rparr>"

text \<open>
  A well-formed world: an unknown section of two bytes, an object tree of three entries
  the second of which is no node, a way-net with one byte too many, and the geometry with
  the tag of the second generation, one filler chunk, the terminator chunk and the tree.
\<close>

definition demo_toc :: "(archive_object \<times> nat) list" where
  "demo_toc =
     [(section_header ''%'' ''oCWorld:zCWorld'', 34),
      (section_header ''Other'' ''zCOther'', 2),
      (section_header ''VobTree'' [], 9),
      (section_header ''WayNet'' [], 11),
      (section_header ''MeshAndBsp'' [], 34)]"

definition demo_bytes :: "8 word list" where
  "demo_bytes =
     [1, 2,
      3, 0, 0, 0, 5, 0, 6,
      9, 0xEE,
      0, 0, 9, 4, 0, 0, 0, 0, 1, 0, 2, 0, 0, 0, 0xAA, 0xBB, 0x60, 0xB0, 0, 0, 0, 0, 7]"

definition demo_buffer :: "nat \<Rightarrow> buffer" where
  "demo_buffer pos = \<lparr>bytes = demo_bytes, position = pos\<rparr>"

definition demo_reader ::
  "nat \<Rightarrow> (archive_object \<times> nat) list \<Rightarrow> nat list \<Rightarrow> toc_state archive_reader" where
  "demo_reader pos toc ends =
     \<lparr>input = demo_buffer pos, reader_state = \<lparr>pending = toc, open_ends = ends\<rparr>\<rparr>"

text \<open>A file that ends two bytes after the header of its geometry section.\<close>

definition cut_toc :: "(archive_object \<times> nat) list" where
  "cut_toc =
     [(section_header ''%'' ''oCWorld:zCWorld'', 40),
      (section_header ''MeshAndBsp'' [], 40)]"

definition cut_buffer :: buffer where
  "cut_buffer = \<lparr>bytes = [0, 0], position = 0\<rparr>"

text \<open>The well-formed world without its geometry section.\<close>

definition plain_toc :: "(archive_object \<times> nat) list" where
  "plain_toc =
     [(section_header ''%'' ''oCWorld:zCWorld'', 11),
      (section_header ''Other'' ''zCOther'', 2),
      (section_header ''VobTree'' [], 9),
      (section_header ''WayNet'' [], 11)]"

text \<open>The well-formed world with another class name at its root.\<close>

definition wrong_toc :: "(archive_object \<times> nat) list" where
  "wrong_toc = (section_header ''%'' ''zCWorld'', 34) # tl demo_toc"

text \<open>
  A file that ends in its geometry section behind one filler chunk, before any chunk of
  type \<^verbatim>\<open>0xB060\<close>.
\<close>

definition open_toc :: "(archive_object \<times> nat) list" where
  "open_toc =
     [(section_header ''%'' ''oCWorld:zCWorld'', 40),
      (section_header ''MeshAndBsp'' [], 40)]"

definition open_buffer :: "nat \<Rightarrow> buffer" where
  "open_buffer pos = \<lparr>bytes = [0, 0, 9, 4, 0, 0, 0, 0, 1, 0, 0, 0, 0, 0], position = pos\<rparr>"

text \<open>A world whose object tree declares the count \<open>-1\<close>, followed by a way-net.\<close>

definition negative_toc :: "(archive_object \<times> nat) list" where
  "negative_toc =
     [(section_header ''%'' ''oCWorld:zCWorld'', 5),
      (section_header ''VobTree'' [], 4),
      (section_header ''WayNet'' [], 5)]"

definition negative_buffer :: buffer where
  "negative_buffer = \<lparr>bytes = [0xFF, 0xFF, 0xFF, 0xFF, 9], position = 0\<rparr>"

text \<open>The well-formed world up to its object tree.\<close>

definition tree_toc :: "(archive_object \<times> nat) list" where
  "tree_toc =
     [(section_header ''%'' ''oCWorld:zCWorld'', 9),
      (section_header ''Other'' ''zCOther'', 2),
      (section_header ''VobTree'' [], 9)]"

text \<open>A world with two object trees, each declaring the count 1.\<close>

definition twice_toc :: "(archive_object \<times> nat) list" where
  "twice_toc =
     [(section_header ''%'' ''oCWorld:zCWorld'', 10),
      (section_header ''VobTree'' [], 5),
      (section_header ''VobTree'' [], 10)]"

definition twice_buffer :: "nat \<Rightarrow> buffer" where
  "twice_buffer pos = \<lparr>bytes = [1, 0, 0, 0, 5, 1, 0, 0, 0, 6], position = pos\<rparr>"

definition twice_reader ::
  "nat \<Rightarrow> (archive_object \<times> nat) list \<Rightarrow> nat list \<Rightarrow> toc_state archive_reader" where
  "twice_reader pos toc ends =
     \<lparr>input = twice_buffer pos, reader_state = \<lparr>pending = toc, open_ends = ends\<rparr>\<rparr>"

text \<open>What parsing the well-formed world logs and returns, without and with its geometry.\<close>

definition plain_log :: "log_entry list" where
  "plain_log =
     [PX_LOGI ''world: parsing object [{} {} {} {}]'' (section_header ''Other'' ''zCOther''),
      PX_LOGW ''world: object [{} {} {} {}] not fully parsed''
        (section_header ''Other'' ''zCOther''),
      PX_LOGI ''world: parsing object [{} {} {} {}]'' (section_header ''VobTree'' []),
      PX_LOGI ''world: parsing object [{} {} {} {}]'' (section_header ''WayNet'' []),
      PX_LOGW ''world: object [{} {} {} {}] not fully parsed'' (section_header ''WayNet'' [])]"

definition demo_log :: "log_entry list" where
  "demo_log =
     plain_log @
     [PX_LOGI ''world: parsing object [{} {} {} {}]'' (section_header ''MeshAndBsp'' [])]"

definition plain_world ::
  "game_version \<Rightarrow>
     (8 word list \<times> game_version, 8 word list \<times> 32 word list, 32 word, 8 word list) world"
  where
  "plain_world gv =
     \<lparr>world_vobs = [([5], gv), ([6], gv)], world_mesh = None, world_bsp_tree = None,
      world_way_net = Some [9]\<rparr>"

definition demo_world ::
  "(8 word list \<times> game_version, 8 word list \<times> 32 word list, 32 word, 8 word list) world"
  where
  "demo_world =
     \<lparr>world_vobs = [([5], gothic_2), ([6], gothic_2)], world_mesh = Some ([1], [7]),
      world_bsp_tree = Some \<lparr>leaf_polygons = [7], tree_data = 0x4090000\<rparr>,
      world_way_net = Some [9]\<rparr>"

text \<open>A measure of what the small reader has left to do.\<close>

definition toc_left :: "toc_state archive_reader \<Rightarrow> nat" where
  "toc_left a = 2 * length (pending (reader_state a)) + length (open_ends (reader_state a))"

section \<open>Properties\<close>

lemmas buffer_defs =
  get_uint_def get_ushort_def get_bytes_def remaining_def skip_def slice_def underflow_def

lemmas toc_defs =
  toc_env_def toc_open_def toc_begin_def toc_end_def toc_skip_def toc_read_int_def
  section_header_def byte_tree_def byte_mesh_def byte_vob_def byte_way_net_def

lemmas demo_defs =
  demo_toc_def demo_bytes_def demo_buffer_def demo_reader_def plain_toc_def
  cut_toc_def cut_buffer_def wrong_toc_def open_toc_def open_buffer_def
  negative_toc_def negative_buffer_def empty_object_def empty_world_def
  plain_log_def demo_log_def plain_world_def demo_world_def tree_toc_def twice_toc_def
  twice_buffer_def twice_reader_def

lemmas world_defs =
  section_body_def dispatch_section_def mesh_and_bsp_section_def vob_tree_section_def
  way_net_section_def close_section_def reserve_def size_t_of_int32_def vector_max_size_def

subsection \<open>The byte cursor and the filler chunks\<close>

lemma get_ushort_underflow: "get_ushort b = Inl e \<Longrightarrow> e = underflow"
  by (auto simp: get_ushort_def get_bytes_def split: if_splits)

lemma get_uint_underflow: "get_uint b = Inl e \<Longrightarrow> e = underflow"
  by (auto simp: get_uint_def get_bytes_def split: if_splits)

lemma skip_underflow: "skip n b = Inl e \<Longrightarrow> e = underflow"
  by (auto simp: skip_def split: if_splits)

lemma skip_chunks_underflow: "skip_chunks b = Inl e \<Longrightarrow> e = underflow"
proof (induction b rule: skip_chunks.induct)
  case (1 b)
  show ?case
  proof (cases "get_ushort b")
    case (Inl e')
    with "1.prems" show ?thesis
      by (subst (asm) skip_chunks.simps) (simp add: get_ushort_underflow)
  next
    case r1: (Inr p)
    obtain t b1 where p: "p = (t, b1)" by (cases p)
    show ?thesis
    proof (cases "get_uint b1")
      case (Inl e')
      with "1.prems" r1 p show ?thesis
        by (subst (asm) skip_chunks.simps) (simp add: get_uint_underflow)
    next
      case r2: (Inr q)
      obtain n b2 where q: "q = (n, b2)" by (cases q)
      show ?thesis
      proof (cases "skip (unat n) b2")
        case (Inl e')
        with "1.prems" r1 p r2 q show ?thesis
          by (subst (asm) skip_chunks.simps) (simp add: skip_underflow)
      next
        case r3: (Inr b3)
        show ?thesis
        proof (cases "t = 0xB060")
          case True
          with "1.prems" r1 p r2 q r3 show ?thesis
            by (subst (asm) skip_chunks.simps) simp
        next
          case False
          with "1.prems" r1 p r2 q r3 have "skip_chunks b3 = Inl e"
            by (subst (asm) skip_chunks.simps) simp
          from "1.IH" [OF r1 [unfolded p] refl r2 [unfolded q] refl r3 False this]
          show ?thesis .
        qed
      qed
    qed
  qed
qed

lemma skip_chunks_filler: "skip_chunks b = Inr b' \<Longrightarrow> filler_chunks b b'"
proof (induction b rule: skip_chunks.induct)
  case (1 b)
  from "1.prems" obtain t b1 n b2 b3 where
    r: "get_ushort b = Inr (t, b1)" "get_uint b1 = Inr (n, b2)" "skip (unat n) b2 = Inr b3"
    and rest: "(if t \<noteq> 0xB060 then skip_chunks b3 else Inr b3) = Inr b'"
    by (subst (asm) skip_chunks.simps) (auto split: sum.splits prod.splits)
  show ?case
  proof (cases "t = 0xB060")
    case True
    with r rest show ?thesis by (auto intro: filler_chunks.terminator)
  next
    case False
    with rest have "skip_chunks b3 = Inr b'" by simp
    from "1.IH" [OF r(1) refl r(2) refl r(3) False this] r False show ?thesis
      by (auto intro: filler_chunks.filler)
  qed
qed

lemma filler_skip_chunks: "filler_chunks b b' \<Longrightarrow> skip_chunks b = Inr b'"
  by (induction rule: filler_chunks.induct) (subst skip_chunks.simps, simp)+

lemma no_filler_chunks:
  assumes "\<forall>b'. \<not> filler_chunks b b'"
  shows "skip_chunks b = Inl underflow"
proof (cases "skip_chunks b")
  case (Inl e)
  then show ?thesis by (simp add: skip_chunks_underflow)
next
  case (Inr b')
  with assms show ?thesis by (auto dest: skip_chunks_filler)
qed

lemma length_le_bytes: "length (le_bytes n v) = n"
  by (induction n arbitrary: v) auto

lemma le_value_le_bytes: "le_value (le_bytes n v) = v mod 256 ^ n"
proof (induction n arbitrary: v)
  case 0
  then show ?case by simp
next
  case (Suc n)
  have "unat (of_nat (v mod 256) :: 8 word) = v mod 256"
    by (simp add: unat_of_nat)
  then show ?case
    by (simp add: Suc mod_mult2_eq)
qed

lemma le_bytes_2:
  "le_bytes 2 v = [of_nat (v mod 256), of_nat (v div 256 mod 256)]"
  by (simp add: numeral_2_eq_2)

lemma le_bytes_4:
  "le_bytes 4 v =
     [of_nat (v mod 256), of_nat (v div 256 mod 256), of_nat (v div 256 div 256 mod 256),
      of_nat (v div 256 div 256 div 256 mod 256)]"
proof -
  have "(4 :: nat) = Suc (Suc (Suc (Suc 0)))" by simp
  then show ?thesis by (simp only: le_bytes.simps)
qed

lemma get_bytes_at:
  "get_bytes (length xs) \<lparr>bytes = pre @ xs @ post, position = length pre\<rparr> =
     Inr (xs, \<lparr>bytes = pre @ xs @ post, position = length pre + length xs\<rparr>)"
  by (simp add: get_bytes_def remaining_def)

lemma get_ushort_at:
  "get_ushort \<lparr>bytes = pre @ le_bytes 2 (unat t) @ post, position = length pre\<rparr> =
     Inr (t, \<lparr>bytes = pre @ le_bytes 2 (unat t) @ post, position = length pre + 2\<rparr>)"
proof -
  have "unat t mod 65536 = unat t"
    using unsigned_less [of t, where ?'a = nat] by simp
  then have "of_nat (le_value (le_bytes 2 (unat t))) = t"
    by (simp add: le_value_le_bytes)
  with get_bytes_at [of "le_bytes 2 (unat t)" pre post] show ?thesis
    by (simp add: get_ushort_def length_le_bytes)
qed

lemma get_uint_at:
  assumes "n < 2 ^ 32"
  shows "get_uint \<lparr>bytes = pre @ le_bytes 4 n @ post, position = length pre\<rparr> =
     Inr (of_nat n, \<lparr>bytes = pre @ le_bytes 4 n @ post, position = length pre + 4\<rparr>)"
proof -
  from assms have "le_value (le_bytes 4 n) = n"
    by (simp add: le_value_le_bytes)
  with get_bytes_at [of "le_bytes 4 n" pre post] show ?thesis
    by (simp add: get_uint_def length_le_bytes)
qed

lemma chunk_at:
  assumes "length payload < 2 ^ 32"
  shows "\<exists>b1 b2.
     get_ushort \<lparr>bytes = pre @ chunk_bytes t payload @ post, position = length pre\<rparr> =
       Inr (t, b1) \<and>
     get_uint b1 = Inr (of_nat (length payload), b2) \<and>
     skip (unat (of_nat (length payload) :: 32 word)) b2 =
       Inr \<lparr>bytes = pre @ chunk_bytes t payload @ post,
            position = length (pre @ chunk_bytes t payload)\<rparr>"
proof -
  let ?bs = "pre @ chunk_bytes t payload @ post"
  have 1: "get_ushort \<lparr>bytes = ?bs, position = length pre\<rparr> =
      Inr (t, \<lparr>bytes = ?bs, position = length pre + 2\<rparr>)"
    using get_ushort_at [of pre t "le_bytes 4 (length payload) @ payload @ post"]
    by (simp add: chunk_bytes_def)
  have 2: "get_uint \<lparr>bytes = ?bs, position = length pre + 2\<rparr> =
      Inr (of_nat (length payload), \<lparr>bytes = ?bs, position = length pre + 6\<rparr>)"
    using get_uint_at [OF assms, of "pre @ le_bytes 2 (unat t)" "payload @ post"]
    by (simp add: chunk_bytes_def length_le_bytes)
  have u: "unat (of_nat (length payload) :: 32 word) = length payload"
    using assms by (simp add: unat_of_nat)
  have 3: "skip (length payload) \<lparr>bytes = ?bs, position = length pre + 6\<rparr> =
      Inr \<lparr>bytes = ?bs, position = length (pre @ chunk_bytes t payload)\<rparr>"
    by (simp add: skip_def remaining_def chunk_bytes_def length_le_bytes)
  from 1 2 3 u show ?thesis by simp
qed

lemma skip_chunks_any_number:
  assumes "\<forall>(t, payload) \<in> set fillers. t \<noteq> 0xB060 \<and> length payload < 2 ^ 32"
    and "length payload < 2 ^ 32"
  shows "skip_chunks
      \<lparr>bytes = pre @ chunks_bytes fillers @ chunk_bytes 0xB060 payload @ post,
       position = length pre\<rparr> =
     Inr \<lparr>bytes = pre @ chunks_bytes fillers @ chunk_bytes 0xB060 payload @ post,
          position = length (pre @ chunks_bytes fillers @ chunk_bytes 0xB060 payload)\<rparr>"
  using assms(1)
proof (induction fillers arbitrary: pre)
  case Nil
  from chunk_at [OF assms(2), of pre "0xB060" post] show ?case
    by (subst skip_chunks.simps) auto
next
  case (Cons c cs)
  obtain t p where c: "c = (t, p)" by (cases c)
  from Cons.prems c have t: "t \<noteq> 0xB060" and p: "length p < 2 ^ 32"
    and rest: "\<forall>(t, payload) \<in> set cs. t \<noteq> 0xB060 \<and> length payload < 2 ^ 32"
    by auto
  let ?post = "chunks_bytes cs @ chunk_bytes 0xB060 payload @ post"
  from chunk_at [OF p, of pre t ?post] t
  have "skip_chunks \<lparr>bytes = pre @ chunk_bytes t p @ ?post, position = length pre\<rparr> =
      skip_chunks \<lparr>bytes = pre @ chunk_bytes t p @ ?post,
                   position = length (pre @ chunk_bytes t p)\<rparr>"
    by (subst skip_chunks.simps) auto
  also have "\<dots> = Inr \<lparr>bytes = pre @ chunk_bytes t p @ ?post,
      position = length ((pre @ chunk_bytes t p) @ chunks_bytes cs @
        chunk_bytes 0xB060 payload)\<rparr>"
    using Cons.IH [OF rest, of "pre @ chunk_bytes t p"] by simp
  finally show ?case by (simp add: c)
qed

lemma duplicate_same: "duplicate b = b"
  by (simp add: duplicate_def)

subsection \<open>The loop of \<^verbatim>\<open>determine_world_version\<close>\<close>

lemma skipped_sections_scan_loop:
  "skipped_sections env n chnk a = Some (chnk', a') \<Longrightarrow>
   scan_loop env chnk a = scan_loop env chnk' a'"
proof (induction n arbitrary: chnk a)
  case 0
  then show ?case by simp
next
  case (Suc n)
  from Suc.prems obtain a1 c1 a2 where
    e: "read_object_end env a = Inr (False, a1)"
    and b: "scan_body env chnk a1 = Inr (Continue c1, a2)"
    and r: "skipped_sections env n c1 a2 = Some (chnk', a')"
    by (auto split: sum.splits if_splits flow.splits)
  have "scan_loop env chnk a = scan_loop env c1 a2"
    by (subst scan_loop.simps) (simp add: e b)
  with Suc.IH [OF r] show ?case by simp
qed

lemma scan_loop_marker:
  assumes "read_object_end env a = Inr (False, a2)"
    and "read_object_begin env c a2 = Inr (c', a3)"
    and "object_name c' = ''MeshAndBsp''"
    and "get_uint (input a3) = Inr (v, b')"
  shows "scan_loop env c a =
    Some (Inr (if v = 0x4090000 then gothic_2 else gothic_1, b', []))"
  using assms
  by (subst scan_loop.simps) (simp add: scan_body_def BSP_VERSION_G2_def)

lemma scan_loop_exhausted:
  assumes "read_object_end env a = Inr (True, a2)"
  shows "scan_loop env c a = Some (Inr (gothic_1, input a2,
     [PX_LOGE ''world: failed to determine world version. Assuming Gothic 1.'']))"
  using assms by (subst scan_loop.simps) simp

lemma scan_body_Inl:
  "scan_body env chnk a = Inl e \<longleftrightarrow>
     read_object_begin env chnk a = Inl e \<or>
     (\<exists>chnk' a'. read_object_begin env chnk a = Inr (chnk', a') \<and>
        (if object_name chnk' = ''MeshAndBsp''
         then get_uint (input a') = Inl e
         else skip_object env True a' = Inl e))"
  by (auto simp: scan_body_def split: sum.splits prod.splits if_splits)

lemma raised_at_scan_body:
  "raised_at env chnk a e \<longleftrightarrow>
     read_object_end env a = Inl e \<or>
     (\<exists>a'. read_object_end env a = Inr (False, a') \<and> scan_body env chnk a' = Inl e)"
  by (simp add: raised_at_def scan_body_Inl)

lemma scan_loop_raised_at:
  assumes "raised_at env chnk a e"
  shows "scan_loop env chnk a = Some (Inl e)"
  using assms unfolding raised_at_scan_body
  by (subst scan_loop.simps) auto

lemma skipped_sections_Suc:
  assumes "read_object_end env a = Inr (False, a1)"
    and "scan_body env chnk a1 = Inr (Continue c1, a2)"
  shows "skipped_sections env (Suc n) chnk a = skipped_sections env n c1 a2"
  using assms by simp

lemma scan_loop_raised:
  assumes "scan_loop env chnk a = Some r"
  shows "\<forall>e. r = Inl e \<longrightarrow>
    (\<exists>n chnk' a'. skipped_sections env n chnk a = Some (chnk', a') \<and> raised_at env chnk' a' e)"
proof (rule scan_loop.raw_induct
    [where P = "\<lambda>env chnk a r. \<forall>e. r = Inl e \<longrightarrow>
      (\<exists>n chnk' a'. skipped_sections env n chnk a = Some (chnk', a') \<and>
        raised_at env chnk' a' e)", OF _ assms],
    goal_cases)
  case (1 loop env chnk archive r)
  have here: "raised_at env chnk archive e \<Longrightarrow>
      \<exists>n chnk' a'. skipped_sections env n chnk archive = Some (chnk', a') \<and>
        raised_at env chnk' a' e" for e
    by (rule exI [of _ 0]) simp
  show ?case
  proof (cases "read_object_end env archive")
    case (Inl e)
    with 1(2) here show ?thesis by (auto simp: raised_at_scan_body)
  next
    case (Inr p)
    obtain ended a1 where p: "p = (ended, a1)" by (cases p)
    show ?thesis
    proof (cases ended)
      case True
      with 1(2) Inr p show ?thesis by auto
    next
      case False
      show ?thesis
      proof (cases "scan_body env chnk a1")
        case (Inl e)
        with \<open>read_object_end env archive = Inr p\<close> p False
        have "raised_at env chnk archive e" by (auto simp: raised_at_scan_body)
        from here [OF this] 1(2) \<open>read_object_end env archive = Inr p\<close> p False Inl
        show ?thesis by auto
      next
        case (Inr q)
        obtain f a2 where q: "q = (f, a2)" by (cases q)
        show ?thesis
        proof (cases f)
          case (Return v)
          with 1(2) \<open>read_object_end env archive = Inr p\<close> p False Inr q show ?thesis by auto
        next
          case (Continue c1)
          with 1(2) \<open>read_object_end env archive = Inr p\<close> p False Inr q
          have "loop env c1 a2 = Some r" by simp
          from 1(1) [OF this] have ih: "\<forall>e. r = Inl e \<longrightarrow>
              (\<exists>n chnk' a'. skipped_sections env n c1 a2 = Some (chnk', a') \<and>
                raised_at env chnk' a' e)" .
          have s: "skipped_sections env (Suc n) chnk archive = skipped_sections env n c1 a2"
            for n
            using \<open>read_object_end env archive = Inr p\<close> p False Inr q Continue
            by (intro skipped_sections_Suc) simp_all
          show ?thesis
          proof (intro allI impI)
            fix e assume "r = Inl e"
            with ih obtain n chnk' a' where
              "skipped_sections env n c1 a2 = Some (chnk', a')" "raised_at env chnk' a' e"
              by blast
            with s [of n] show "\<exists>n chnk' a'.
                skipped_sections env n chnk archive = Some (chnk', a') \<and>
                raised_at env chnk' a' e"
              by (intro exI [of _ "Suc n"]) auto
          qed
        qed
      qed
    qed
  qed
qed

lemma scan_loop_Inl:
  "scan_loop env chnk a = Some (Inl e) \<longleftrightarrow>
     (\<exists>n chnk' a'. skipped_sections env n chnk a = Some (chnk', a') \<and>
        raised_at env chnk' a' e)"
proof
  assume "scan_loop env chnk a = Some (Inl e)"
  from scan_loop_raised [OF this] show "\<exists>n chnk' a'.
      skipped_sections env n chnk a = Some (chnk', a') \<and> raised_at env chnk' a' e"
    by simp
next
  assume "\<exists>n chnk' a'. skipped_sections env n chnk a = Some (chnk', a') \<and>
      raised_at env chnk' a' e"
  then obtain n chnk' a' where s: "skipped_sections env n chnk a = Some (chnk', a')"
    and r: "raised_at env chnk' a' e" by blast
  from skipped_sections_scan_loop [OF s] scan_loop_raised_at [OF r]
  show "scan_loop env chnk a = Some (Inl e)" by simp
qed

lemma determine_world_version_Inl:
  "determine_world_version env buf = Some (Inl e) \<longleftrightarrow> raised_in env buf e"
proof (cases "archive_reader_open env buf")
  case (Inl e')
  then show ?thesis by (auto simp: determine_world_version_def raised_in_def)
next
  case o: (Inr a0)
  show ?thesis
  proof (cases "read_object_begin env empty_object a0")
    case (Inl e')
    with o show ?thesis by (auto simp: determine_world_version_def raised_in_def)
  next
    case (Inr p)
    obtain c0 a1 where p: "p = (c0, a1)" by (cases p)
    with o Inr show ?thesis
      by (simp add: determine_world_version_def raised_in_def scan_loop_Inl)
  qed
qed

lemma scan_loop_returns:
  assumes progress: "\<And>c a a1 c1 a2. read_object_end env a = Inr (False, a1) \<Longrightarrow>
      scan_body env c a1 = Inr (Continue c1, a2) \<Longrightarrow> m a2 < (m a :: nat)"
  shows "scan_loop env chnk a \<noteq> None"
proof (induction "m a" arbitrary: chnk a rule: less_induct)
  case less
  show ?case
  proof (cases "read_object_end env a")
    case (Inl e)
    then show ?thesis by (subst scan_loop.simps) simp
  next
    case (Inr p)
    obtain ended a1 where p: "p = (ended, a1)" by (cases p)
    show ?thesis
    proof (cases ended)
      case True
      with Inr p show ?thesis by (subst scan_loop.simps) simp
    next
      case False
      show ?thesis
      proof (cases "scan_body env chnk a1")
        case (Inl e)
        with \<open>read_object_end env a = Inr p\<close> p False show ?thesis
          by (subst scan_loop.simps) simp
      next
        case r: (Inr q)
        obtain f a2 where q: "q = (f, a2)" by (cases q)
        show ?thesis
        proof (cases f)
          case (Return v)
          with Inr p False r q show ?thesis by (subst scan_loop.simps) simp
        next
          case (Continue c1)
          with Inr p False r q have "m a2 < m a" by (auto intro: progress)
          from less [OF this] have "scan_loop env c1 a2 \<noteq> None" .
          with Inr p False r q Continue show ?thesis by (subst scan_loop.simps) simp
        qed
      qed
    qed
  qed
qed

lemma toc_progress:
  "read_object_end (toc_env toc) a = Inr (False, a1) \<Longrightarrow>
   scan_body (toc_env toc) c a1 = Inr (Continue c1, a2) \<Longrightarrow> toc_left a2 < toc_left a"
  by (auto simp: toc_defs scan_body_def toc_left_def
      split: list.splits if_splits sum.splits prod.splits)

subsection \<open>The object tree\<close>

lemma reserve_nonnegative:
  assumes "0 \<le> sint (count :: 32 word)"
  shows "reserve (size_t_of_int32 count) xs = Inr xs"
proof -
  have "sint count < 2 ^ 31" using sint_lt [of count] by simp
  with assms have "sint count mod 2 ^ 64 = sint count" by simp
  with \<open>sint count < 2 ^ 31\<close> show ?thesis
    by (simp add: reserve_def size_t_of_int32_def vector_max_size_def)
qed

lemma reserve_negative:
  assumes "sint (count :: 32 word) < 0"
  shows "reserve (size_t_of_int32 count) xs = Inl (length_error ''vector::reserve'')"
proof -
  have "- (2 ^ 31) \<le> sint count" using sint_ge [of count] by simp
  with assms have "(sint count + 2 ^ 64) mod 2 ^ 64 = sint count + 2 ^ 64"
    by (intro mod_pos_pos_trivial) simp_all
  then have "sint count mod 2 ^ 64 = sint count + 2 ^ 64"
    by simp
  with \<open>- (2 ^ 31) \<le> sint count\<close> show ?thesis
    by (simp add: reserve_def size_t_of_int32_def vector_max_size_def)
qed

lemma vob_loop_decoder_results:
  "vob_loop env gv count i (vobs, a) =
     (case decoder_results env gv (nat (count - i)) a of
        Inl e \<Rightarrow> Inl e
      | Inr (rs, a') \<Rightarrow> Inr (vobs @ nodes rs, a'))"
proof (induction "nat (count - i)" arbitrary: i vobs a)
  case 0
  then have "\<not> i < count" by simp
  with 0 show ?case by (subst vob_loop.simps) simp
next
  case (Suc n)
  then have lt: "i < count" and n: "n = nat (count - (i + 1))" by simp_all
  have s: "nat (count - i) = Suc (nat (count - (i + 1)))" using lt by simp
  show ?case
    by (subst vob_loop.simps, simp only: s decoder_results.simps)
      (auto simp: lt Suc.hyps(1) [OF n] split: sum.splits option.splits)
qed

lemma decoder_results_length:
  "decoder_results env gv n a = Inr (rs, a') \<Longrightarrow> length rs = n"
  by (induction n arbitrary: a rs) (auto split: sum.splits)

lemma length_nodes: "length (nodes rs) \<le> length rs"
  by (induction rs rule: nodes.induct) auto

lemma length_nodes_less: "length (nodes rs) < length rs \<longleftrightarrow> None \<in> set rs"
  using length_nodes by (induction rs rule: nodes.induct) (auto simp: less_Suc_eq_le)

lemma vob_tree_section_negative:
  assumes "read_int env a = Inr (count, a1)" and "sint count < 0"
  shows "vob_tree_section env gv wld a = Inl (length_error ''vector::reserve'')"
  using assms by (simp add: vob_tree_section_def reserve_negative)

subsection \<open>The sections and the loop of \<^verbatim>\<open>world::parse\<close>\<close>

lemma catch_buffer_error_Inr: "catch_buffer_error r = Inr x \<longleftrightarrow> r = Inr x"
  by (cases r) (auto simp: catch_buffer_error_def)


lemma world_parse_root:
  assumes "archive_reader_open env inb = Inr a0"
    and "read_object_begin env empty_object a0 = Inr (c0, a1)"
    and "class_name c0 = ''oCWorld:zCWorld''"
  shows "world_parse_try env inb gv = section_loop env gv c0 (empty_world, a1, [])"
  using assms by (simp add: world_parse_try_def)

lemma vob_tree_section_frame:
  "vob_tree_section env gv wld a = Inr (wld', a') \<Longrightarrow>
   world_mesh wld' = world_mesh wld \<and> world_bsp_tree wld' = world_bsp_tree wld \<and>
   world_way_net wld' = world_way_net wld"
  by (auto simp: vob_tree_section_def split: sum.splits prod.splits)

lemma way_net_section_frame:
  "way_net_section env wld a = Inr (wld', a') \<Longrightarrow>
   world_mesh wld' = world_mesh wld \<and> world_bsp_tree wld' = world_bsp_tree wld \<and>
   world_vobs wld' = world_vobs wld"
  by (auto simp: way_net_section_def split: sum.splits prod.splits)

lemma mesh_and_bsp_section_sets:
  "mesh_and_bsp_section env wld a = Inr (wld', a') \<Longrightarrow>
   world_mesh wld' \<noteq> None \<and> world_bsp_tree wld' \<noteq> None \<and>
   world_vobs wld' = world_vobs wld \<and> world_way_net wld' = world_way_net wld"
  by (auto simp: mesh_and_bsp_section_def Let_def split: sum.splits prod.splits)

lemma dispatch_section_other:
  "object_name chnk \<noteq> ''MeshAndBsp'' \<Longrightarrow>
   dispatch_section env gv chnk wld a = Inr (wld', a') \<Longrightarrow>
   world_mesh wld' = world_mesh wld \<and> world_bsp_tree wld' = world_bsp_tree wld"
  by (auto simp: dispatch_section_def dest: vob_tree_section_frame way_net_section_frame
      split: if_splits)

lemma dispatch_section_marker:
  "object_name chnk = ''MeshAndBsp'' \<Longrightarrow>
   dispatch_section env gv chnk wld a = Inr (wld', a') \<Longrightarrow>
   world_mesh wld' \<noteq> None \<and> world_bsp_tree wld' \<noteq> None"
  by (auto simp: dispatch_section_def dest: mesh_and_bsp_section_sets)

lemma close_section_log:
  "close_section env chnk a = Inr (a', warn) \<Longrightarrow>
   warn = [] \<or> warn = [PX_LOGW ''world: object [{} {} {} {}] not fully parsed'' chnk]"
  by (auto simp: close_section_def split: sum.splits prod.splits if_splits)

lemma section_body_paired:
  assumes I: "(world_mesh wld \<noteq> None \<longleftrightarrow> world_bsp_tree wld \<noteq> None) \<and>
      (world_mesh wld \<noteq> None \<longleftrightarrow> marker_logged lg)"
    and b: "section_body env gv chnk (wld, a, lg) = Inr (chnk', wld', a', lg')"
  shows "(world_mesh wld' \<noteq> None \<longleftrightarrow> world_bsp_tree wld' \<noteq> None) \<and>
      (world_mesh wld' \<noteq> None \<longleftrightarrow> marker_logged lg')"
proof -
  from b obtain a1 a2 warn where
    d: "dispatch_section env gv chnk' wld a1 = Inr (wld', a2)"
    and c: "close_section env chnk' a2 = Inr (a', warn)"
    and l: "lg' = lg @ [PX_LOGI ''world: parsing object [{} {} {} {}]'' chnk'] @ warn"
    by (auto simp: section_body_def split: sum.splits prod.splits)
  from close_section_log [OF c] l
  have lg: "marker_logged lg' \<longleftrightarrow> marker_logged lg \<or> object_name chnk' = ''MeshAndBsp''"
    by (auto simp: marker_logged_def)
  show ?thesis
  proof (cases "object_name chnk' = ''MeshAndBsp''")
    case True
    with dispatch_section_marker [OF True d] lg show ?thesis by simp
  next
    case False
    with dispatch_section_other [OF False d] lg I show ?thesis by auto
  qed
qed

lemma parsed_sections_section_loop:
  "parsed_sections env gv n chnk st = Some (chnk', st') \<Longrightarrow>
   section_loop env gv chnk st = section_loop env gv chnk' st'"
proof (induction n arbitrary: chnk st)
  case 0
  then show ?case by simp
next
  case (Suc n)
  obtain wld a lg where st: "st = (wld, a, lg)" by (cases st)
  from Suc.prems st obtain a1 c1 st1 where
    e: "read_object_end env a = Inr (False, a1)"
    and b: "section_body env gv chnk (wld, a1, lg) = Inr (c1, st1)"
    and r: "parsed_sections env gv n c1 st1 = Some (chnk', st')"
    by (auto split: sum.splits if_splits)
  have "section_loop env gv chnk st = section_loop env gv c1 st1"
    by (subst section_loop.simps) (simp add: st e b)
  with Suc.IH [OF r] show ?case by simp
qed

lemma section_loop_invariant:
  assumes run: "section_loop env gv chnk (wld0, a0, lg0) = Some (Inr (w, b, l))"
    and init: "I wld0 lg0"
    and step: "\<And>chnk wld a lg chnk' wld' a' lg'. I wld lg \<Longrightarrow>
      section_body env gv chnk (wld, a, lg) = Inr (chnk', wld', a', lg') \<Longrightarrow> I wld' lg'"
  shows "I w l"
proof -
  have "env = env \<longrightarrow> gv = gv \<longrightarrow> I (fst (wld0, a0, lg0)) (snd (snd (wld0, a0, lg0))) \<longrightarrow>
      (Inr (w, b, l) :: exn + _) = Inr (w, b, l) \<longrightarrow> I w l"
  proof (rule section_loop.raw_induct
      [where P = "\<lambda>env' gv' chnk st r. env' = env \<longrightarrow> gv' = gv \<longrightarrow>
          I (fst st) (snd (snd st)) \<longrightarrow> r = Inr (w, b, l) \<longrightarrow> I w l", OF _ run], goal_cases)
    case (1 loop env' gv' chnk st r)
    show ?case
    proof (intro impI)
      assume eqs: "env' = env" "gv' = gv" and I0: "I (fst st) (snd (snd st))"
        and res: "r = Inr (w, b, l)"
      obtain wld a lg where st: "st = (wld, a, lg)" by (cases st)
      note body = 1(2) [unfolded st eqs, simplified]
      from I0 st have I: "I wld lg" by simp
      show "I w l"
      proof (cases "read_object_end env a")
        case (Inl e)
        with body res show ?thesis by simp
      next
        case (Inr p)
        obtain ended a1 where p: "p = (ended, a1)" by (cases p)
        show ?thesis
        proof (cases ended)
          case True
          with body Inr p res I show ?thesis by simp
        next
          case False
          show ?thesis
          proof (cases "section_body env gv chnk (wld, a1, lg)")
            case (Inl e)
            with body \<open>read_object_end env a = Inr p\<close> p False res show ?thesis by simp
          next
            case q: (Inr q)
            obtain c1 wld1 a2 lg1 where q': "q = (c1, wld1, a2, lg1)" by (cases q)
            from step [OF I q [unfolded q']] have I1: "I wld1 lg1" .
            from body Inr p False q q' have "loop env gv c1 (wld1, a2, lg1) = Some r" by simp
            from 1(1) [OF this] I1 res show ?thesis by simp
          qed
        qed
      qed
    qed
  qed
  with init show ?thesis by simp
qed

lemma section_loop_step:
  assumes "read_object_end env a = Inr (False, a1)"
    and "section_body env gv c (wld, a1, lg) = Inr (c', st')"
  shows "section_loop env gv c (wld, a, lg) = section_loop env gv c' st'"
  using assms by (subst section_loop.simps) simp

lemma section_loop_raise:
  assumes "read_object_end env a = Inr (False, a1)"
    and "section_body env gv c (wld, a1, lg) = Inl e"
  shows "section_loop env gv c (wld, a, lg) = Some (Inl e)"
  using assms by (subst section_loop.simps) simp

lemma section_loop_end:
  assumes "read_object_end env a = Inr (True, a1)"
  shows "section_loop env gv c (wld, a, lg) = Some (Inr (wld, input a1, lg))"
  using assms by (subst section_loop.simps) simp

lemma world_parse_prefix:
  assumes "archive_reader_open env inb = Inr a0"
    and "read_object_begin env empty_object a0 = Inr (c0, a1)"
    and "class_name c0 = ''oCWorld:zCWorld''"
    and "parsed_sections env gv n c0 (empty_world, a1, []) = Some (c, st)"
  shows "world_parse env inb gv = map_option catch_buffer_error (section_loop env gv c st)"
  using assms
  by (simp add: world_parse_def world_parse_root parsed_sections_section_loop)

lemma vob_tree_section_results:
  assumes "read_int env a = Inr (count, a1)"
    and "0 \<le> sint count"
    and "decoder_results env gv (nat (sint count)) a1 = Inr (rs, a2)"
  shows "vob_tree_section env gv wld a =
    Inr (wld\<lparr>world_vobs := world_vobs wld @ nodes rs\<rparr>, a2)"
proof -
  have "vob_loop env gv (sint count) 0 (world_vobs wld, a1) =
      Inr (world_vobs wld @ nodes rs, a2)"
    using assms(3) by (simp add: vob_loop_decoder_results)
  then show ?thesis
    using assms(1,2) by (simp add: vob_tree_section_def reserve_nonnegative)
qed

lemma mesh_and_bsp_section_results:
  assumes "get_uint (input a) = Inr (ver, in1)"
    and "get_uint in1 = Inr (declared, in2)"
    and "filler_chunks in2 in3"
    and "bsp_tree_parse env in3 ver = Inr (tree, in4)"
    and "mesh_parse env (slice in2) (leaf_polygons tree) = Inr m"
  shows "mesh_and_bsp_section env wld a =
    Inr (wld\<lparr>world_bsp_tree := Some tree, world_mesh := Some m\<rparr>, a\<lparr>input := in4\<rparr>)"
  using assms by (simp add: mesh_and_bsp_section_def filler_skip_chunks)

lemma section_body_dispatch:
  assumes "read_object_begin env c a = Inr (c', a1)"
    and "dispatch_section env gv c' wld a1 = Inr (wld', a2)"
    and "close_section env c' a2 = Inr (a3, warn)"
  shows "section_body env gv c (wld, a, lg) =
    Inr (c', wld', a3, lg @ [PX_LOGI ''world: parsing object [{} {} {} {}]'' c'] @ warn)"
  using assms by (simp add: section_body_def)

lemma section_body_dispatch_raise:
  assumes "read_object_begin env c a = Inr (c', a1)"
    and "dispatch_section env gv c' wld a1 = Inl e"
  shows "section_body env gv c (wld, a, lg) = Inl e"
  using assms by (simp add: section_body_def)

lemma world_parse_section:
  assumes "archive_reader_open env inb = Inr a0"
    and "read_object_begin env empty_object a0 = Inr (c0, a1)"
    and "class_name c0 = ''oCWorld:zCWorld''"
    and "parsed_sections env gv n c0 (empty_world, a1, []) = Some (c, wld, a, lg)"
    and "read_object_end env a = Inr (False, a2)"
    and "read_object_begin env c a2 = Inr (c', a3)"
    and "dispatch_section env gv c' wld a3 = Inr (wld', a4)"
    and "close_section env c' a4 = Inr (a5, warn)"
  shows "world_parse env inb gv =
      map_option catch_buffer_error (section_loop env gv c'
        (wld', a5, lg @ [PX_LOGI ''world: parsing object [{} {} {} {}]'' c'] @ warn))"
    and "read_object_end env a5 = Inr (True, a6) \<Longrightarrow>
      world_parse env inb gv =
        Some (Inr (wld', input a6,
          lg @ [PX_LOGI ''world: parsing object [{} {} {} {}]'' c'] @ warn))"
proof -
  let ?lg = "lg @ [PX_LOGI ''world: parsing object [{} {} {} {}]'' c'] @ warn"
  have "section_loop env gv c (wld, a, lg) = section_loop env gv c' (wld', a5, ?lg)"
    using assms(5) section_body_dispatch [OF assms(6-8)] by (rule section_loop_step)
  with world_parse_prefix [OF assms(1-4)]
  show p: "world_parse env inb gv =
      map_option catch_buffer_error (section_loop env gv c' (wld', a5, ?lg))"
    by simp
  show "world_parse env inb gv = Some (Inr (wld', input a6, ?lg))"
    if "read_object_end env a5 = Inr (True, a6)"
    using that by (simp add: p section_loop_end catch_buffer_error_def)
qed

lemma world_parse_section_raise:
  assumes "archive_reader_open env inb = Inr a0"
    and "read_object_begin env empty_object a0 = Inr (c0, a1)"
    and "class_name c0 = ''oCWorld:zCWorld''"
    and "parsed_sections env gv n c0 (empty_world, a1, []) = Some (c, wld, a, lg)"
    and "read_object_end env a = Inr (False, a2)"
    and "read_object_begin env c a2 = Inr (c', a3)"
    and "dispatch_section env gv c' wld a3 = Inl e"
  shows "world_parse env inb gv = Some (catch_buffer_error (Inl e))"
proof -
  have "section_loop env gv c (wld, a, lg) = Some (Inl e)"
    using assms(5) section_body_dispatch_raise [OF assms(6,7)] by (rule section_loop_raise)
  with world_parse_prefix [OF assms(1-4)] show ?thesis by simp
qed

subsection \<open>Running the small reader\<close>

lemma demo_open:
  "archive_reader_open (toc_env toc) (demo_buffer pos) = Inr (demo_reader pos toc [])"
  by (simp add: toc_defs demo_reader_def)

lemma demo_begin:
  "read_object_begin (toc_env toc) c (demo_reader pos ((h, e) # rest) ends) =
     Inr (h, demo_reader pos rest (e # ends))"
  by (simp add: toc_defs demo_reader_def)

lemma demo_end:
  "read_object_end (toc_env toc) (demo_reader pos rest (e # ends)) =
     (if pos = e then Inr (True, demo_reader pos rest ends)
      else Inr (False, demo_reader pos rest (e # ends)))"
  by (simp add: toc_defs demo_reader_def demo_buffer_def)

lemma demo_skip:
  "e \<le> 34 \<Longrightarrow>
   skip_object (toc_env toc) True (demo_reader pos rest (e # ends)) =
     Inr (demo_reader e rest ends)"
  by (simp add: toc_defs demo_reader_def demo_buffer_def demo_bytes_def)

lemma demo_input: "input (demo_reader pos rest ends) = demo_buffer pos"
  by (simp add: demo_reader_def)

lemma demo_input_update:
  "(demo_reader pos rest ends)\<lparr>input := demo_buffer pos'\<rparr> = demo_reader pos' rest ends"
  by (simp add: demo_reader_def)

lemma demo_get_uint:
  "get_uint (demo_buffer 2) = Inr (3, demo_buffer 6)"
  "get_uint (demo_buffer 11) = Inr (0x4090000, demo_buffer 15)"
  "get_uint (demo_buffer 15) = Inr (0, demo_buffer 19)"
  by (simp_all add: buffer_defs demo_buffer_def demo_bytes_def)

lemma demo_read_int:
  "read_int (toc_env toc) (demo_reader 2 rest ends) = Inr (3, demo_reader 6 rest ends)"
  by (simp add: toc_env_def toc_read_int_def demo_input demo_get_uint demo_input_update)

lemma demo_vobs:
  "parse_vob_tree (toc_env toc) (demo_reader 6 rest ends) gv =
     Inr (Some ([5], gv), demo_reader 7 rest ends)"
  "parse_vob_tree (toc_env toc) (demo_reader 7 rest ends) gv =
     Inr (None, demo_reader 8 rest ends)"
  "parse_vob_tree (toc_env toc) (demo_reader 8 rest ends) gv =
     Inr (Some ([6], gv), demo_reader 9 rest ends)"
  by (simp_all add: toc_defs buffer_defs demo_reader_def demo_buffer_def demo_bytes_def)

lemma demo_decoder_results:
  "decoder_results (toc_env toc) gv 3 (demo_reader 6 rest ends) =
     Inr ([Some ([5], gv), None, Some ([6], gv)], demo_reader 9 rest ends)"
  by (simp add: numeral_3_eq_3 demo_vobs)

lemma demo_way_net:
  "way_net_parse (toc_env toc) (demo_reader 9 rest ends) = Inr ([9], demo_reader 10 rest ends)"
  by (simp add: toc_defs buffer_defs demo_reader_def demo_buffer_def demo_bytes_def)

lemma demo_chunks: "filler_chunks (demo_buffer 19) (demo_buffer 33)"
proof -
  have 1: "get_ushort (demo_buffer 19) = Inr (1, demo_buffer 21)"
    and 2: "get_uint (demo_buffer 21) = Inr (2, demo_buffer 25)"
    and 3: "skip (unat (2 :: 32 word)) (demo_buffer 25) = Inr (demo_buffer 27)"
    and 4: "get_ushort (demo_buffer 27) = Inr (0xB060, demo_buffer 29)"
    and 5: "get_uint (demo_buffer 29) = Inr (0, demo_buffer 33)"
    and 6: "skip (unat (0 :: 32 word)) (demo_buffer 33) = Inr (demo_buffer 33)"
    by (simp_all add: buffer_defs demo_buffer_def demo_bytes_def)
  from 4 5 6 have "filler_chunks (demo_buffer 27) (demo_buffer 33)"
    by (rule filler_chunks.terminator)
  with 1 _ 2 3 show ?thesis
    by (rule filler_chunks.filler) simp
qed

lemma demo_tree:
  "bsp_tree_parse (toc_env toc) (demo_buffer 33) v =
     Inr (\<lparr>leaf_polygons = [7], tree_data = v\<rparr>, demo_buffer 34)"
  by (simp add: toc_defs buffer_defs demo_buffer_def demo_bytes_def)

lemma demo_mesh:
  "mesh_parse (toc_env toc) (slice (demo_buffer 19)) polys = Inr ([1], polys)"
  by (simp add: toc_defs buffer_defs demo_buffer_def demo_bytes_def)

lemma demo_vob_tree_section:
  "vob_tree_section (toc_env toc) gv wld (demo_reader 2 rest ends) =
     Inr (wld\<lparr>world_vobs := world_vobs wld @ [([5], gv), ([6], gv)]\<rparr>, demo_reader 9 rest ends)"
  by (simp add: vob_tree_section_def demo_read_int reserve_nonnegative
      vob_loop_decoder_results demo_decoder_results)

lemma demo_mesh_and_bsp_section:
  "mesh_and_bsp_section (toc_env toc) wld (demo_reader 11 rest ends) =
     Inr (wld\<lparr>world_bsp_tree := Some \<lparr>leaf_polygons = [7], tree_data = 0x4090000\<rparr>,
              world_mesh := Some ([1], [7])\<rparr>, demo_reader 34 rest ends)"
  by (simp add: mesh_and_bsp_section_def demo_input demo_get_uint
      filler_skip_chunks [OF demo_chunks] demo_tree demo_mesh demo_input_update)

lemmas demo_run =
  section_body_def dispatch_section_def close_section_def way_net_section_def
  demo_begin demo_end demo_skip demo_vob_tree_section demo_mesh_and_bsp_section demo_way_net
  section_header_def

lemma plain_parsed:
  "parsed_sections (toc_env plain_toc) gv (Suc (Suc 0)) (section_header ''%'' ''oCWorld:zCWorld'')
     (empty_world, demo_reader 0 (tl plain_toc) [11], []) =
   Some (section_header ''VobTree'' [],
     (plain_world gv)\<lparr>world_way_net := None\<rparr>,
     demo_reader 9 [(section_header ''WayNet'' [], 11)] [11], take 3 plain_log)"
  by (simp add: plain_toc_def demo_run empty_world_def plain_world_def
      plain_log_def)

lemma demo_parsed:
  "parsed_sections (toc_env demo_toc) gothic_2 (Suc (Suc (Suc (Suc 0))))
     (section_header ''%'' ''oCWorld:zCWorld'')
     (empty_world, demo_reader 0 (tl demo_toc) [34], []) =
   Some (section_header ''MeshAndBsp'' [], demo_world, demo_reader 34 [] [34], demo_log)"
  by (simp add: demo_toc_def demo_run empty_world_def demo_world_def
      demo_log_def plain_log_def)

lemma demo_world_parse:
  "world_parse (toc_env demo_toc) (demo_buffer 0) gothic_2 =
     Some (Inr (demo_world, demo_buffer 34, demo_log))"
proof -
  have "world_parse (toc_env demo_toc) (demo_buffer 0) gothic_2 =
      map_option catch_buffer_error (section_loop (toc_env demo_toc) gothic_2
        (section_header ''MeshAndBsp'' []) (demo_world, demo_reader 34 [] [34], demo_log))"
    by (rule world_parse_prefix [OF demo_open _ _ demo_parsed])
      (simp_all add: demo_toc_def demo_begin section_header_def)
  also have "\<dots> = Some (Inr (demo_world, demo_buffer 34, demo_log))"
    by (subst section_loop_end [where ?a1.0 = "demo_reader 34 [] []"])
      (simp_all add: demo_end demo_input catch_buffer_error_def)
  finally show ?thesis .
qed

lemma plain_parsed3:
  "parsed_sections (toc_env plain_toc) gv (Suc (Suc (Suc 0)))
     (section_header ''%'' ''oCWorld:zCWorld'')
     (empty_world, demo_reader 0 (tl plain_toc) [11], []) =
   Some (section_header ''WayNet'' [], plain_world gv, demo_reader 11 [] [11], plain_log)"
  by (simp add: plain_toc_def demo_run empty_world_def plain_world_def plain_log_def)

lemma plain_world_parse:
  "world_parse (toc_env plain_toc) (demo_buffer 0) gv =
     Some (Inr (plain_world gv, demo_buffer 11, plain_log))"
proof -
  have "world_parse (toc_env plain_toc) (demo_buffer 0) gv =
      map_option catch_buffer_error (section_loop (toc_env plain_toc) gv
        (section_header ''WayNet'' []) (plain_world gv, demo_reader 11 [] [11], plain_log))"
    by (rule world_parse_prefix [OF demo_open _ _ plain_parsed3])
      (simp_all add: plain_toc_def demo_begin section_header_def)
  also have "\<dots> = Some (Inr (plain_world gv, demo_buffer 11, plain_log))"
    by (subst section_loop_end [where ?a1.0 = "demo_reader 11 [] []"])
      (simp_all add: demo_end demo_input catch_buffer_error_def)
  finally show ?thesis .
qed

lemma demo_skipped:
  "skipped_sections (toc_env demo_toc) (Suc (Suc (Suc 0)))
     (section_header ''%'' ''oCWorld:zCWorld'') (demo_reader 0 (tl demo_toc) [34]) =
   Some (section_header ''WayNet'' [],
     demo_reader 11 [(section_header ''MeshAndBsp'' [], 34)] [34])"
  by (simp add: demo_toc_def scan_body_def demo_begin demo_end demo_skip section_header_def)

lemma demo_version:
  "determine_world_version (toc_env demo_toc) (demo_buffer 0) =
     Some (Inr (gothic_2, demo_buffer 15, []))"
proof -
  have "determine_world_version (toc_env demo_toc) (demo_buffer 0) =
      scan_loop (toc_env demo_toc) (section_header ''%'' ''oCWorld:zCWorld'')
        (demo_reader 0 (tl demo_toc) [34])"
    by (simp add: determine_world_version_def demo_open demo_toc_def demo_begin)
  also have "\<dots> = scan_loop (toc_env demo_toc) (section_header ''WayNet'' [])
      (demo_reader 11 [(section_header ''MeshAndBsp'' [], 34)] [34])"
    by (rule skipped_sections_scan_loop [OF demo_skipped])
  also have "\<dots> = Some (Inr (gothic_2, demo_buffer 15, []))"
  proof -
    let ?a = "demo_reader 11 [(section_header ''MeshAndBsp'' [], 34)] [34]"
    have e: "read_object_end (toc_env demo_toc) ?a = Inr (False, ?a)"
      by (simp add: demo_end)
    have b: "read_object_begin (toc_env demo_toc) (section_header ''WayNet'' []) ?a =
        Inr (section_header ''MeshAndBsp'' [], demo_reader 11 [] [34, 34])"
      by (simp add: demo_begin)
    have n: "object_name (section_header ''MeshAndBsp'' []) = ''MeshAndBsp''"
      by (simp add: section_header_def)
    have g: "get_uint (input (demo_reader 11 [] [34, 34])) = Inr (0x4090000, demo_buffer 15)"
      by (simp add: demo_input demo_get_uint)
    from scan_loop_marker [OF e b n g] show ?thesis by simp
  qed
  finally show ?thesis .
qed

lemma open_no_terminator: "\<forall>b'. \<not> filler_chunks (open_buffer 8) b'"
proof -
  have 1: "get_ushort (open_buffer 8) = Inr (1, open_buffer 10)"
    and 2: "get_uint (open_buffer 10) = Inr (0, open_buffer 14)"
    and 3: "skip 0 (open_buffer 14) = Inr (open_buffer 14)"
    and 4: "get_ushort (open_buffer 14) = Inl underflow"
    by (simp_all add: buffer_defs open_buffer_def)
  have "skip_chunks (open_buffer 14) = Inl underflow"
    by (subst skip_chunks.simps) (simp add: 4)
  then have "skip_chunks (open_buffer 8) = Inl underflow"
    by (subst skip_chunks.simps) (simp add: 1 2 3)
  then show ?thesis by (auto dest: filler_skip_chunks)
qed

lemma demo_close_done:
  "close_section (toc_env toc) chnk (demo_reader e rest (e # ends)) =
     Inr (demo_reader e rest ends, [])"
  by (simp add: close_section_def demo_end)

lemma tree_parsed:
  "parsed_sections (toc_env tree_toc) gv (Suc 0) (section_header ''%'' ''oCWorld:zCWorld'')
     (empty_world, demo_reader 0 (tl tree_toc) [9], []) =
   Some (section_header ''Other'' ''zCOther'', empty_world,
     demo_reader 2 [(section_header ''VobTree'' [], 9)] [9], take 2 plain_log)"
  by (simp add: tree_toc_def demo_run plain_log_def)

lemma demo_parsed3:
  "parsed_sections (toc_env demo_toc) gv (Suc (Suc (Suc 0)))
     (section_header ''%'' ''oCWorld:zCWorld'')
     (empty_world, demo_reader 0 (tl demo_toc) [34], []) =
   Some (section_header ''WayNet'' [], plain_world gv,
     demo_reader 11 [(section_header ''MeshAndBsp'' [], 34)] [34], plain_log)"
  by (simp add: demo_toc_def demo_run empty_world_def plain_world_def plain_log_def)

lemma twice_decoder_results:
  "decoder_results (toc_env toc) gv (Suc 0) (twice_reader 4 rest ends) =
     Inr ([Some ([5], gv)], twice_reader 5 rest ends)"
  "decoder_results (toc_env toc) gv (Suc 0) (twice_reader 9 rest ends) =
     Inr ([Some ([6], gv)], twice_reader 10 rest ends)"
  by (simp_all add: toc_defs buffer_defs twice_reader_def twice_buffer_def)

lemma twice_read_int:
  "read_int (toc_env toc) (twice_reader 0 rest ends) = Inr (1, twice_reader 4 rest ends)"
  "read_int (toc_env toc) (twice_reader 5 rest ends) = Inr (1, twice_reader 9 rest ends)"
  by (simp_all add: toc_defs buffer_defs twice_reader_def twice_buffer_def)

lemma twice_vob_tree_section:
  "vob_tree_section (toc_env toc) gv wld (twice_reader 0 rest ends) =
     Inr (wld\<lparr>world_vobs := world_vobs wld @ [([5], gv)]\<rparr>, twice_reader 5 rest ends)"
  "vob_tree_section (toc_env toc) gv wld (twice_reader 5 rest ends) =
     Inr (wld\<lparr>world_vobs := world_vobs wld @ [([6], gv)]\<rparr>, twice_reader 10 rest ends)"
proof -
  have s: "0 \<le> sint (1 :: 32 word)" and n: "nat (sint (1 :: 32 word)) = Suc 0"
    by simp_all
  have 1: "decoder_results (toc_env toc) gv (nat (sint (1 :: 32 word)))
      (twice_reader 4 rest ends) = Inr ([Some ([5], gv)], twice_reader 5 rest ends)"
    by (simp only: n twice_decoder_results)
  have 2: "decoder_results (toc_env toc) gv (nat (sint (1 :: 32 word)))
      (twice_reader 9 rest ends) = Inr ([Some ([6], gv)], twice_reader 10 rest ends)"
    by (simp only: n twice_decoder_results)
  from vob_tree_section_results [OF twice_read_int(1) s 1]
  show "vob_tree_section (toc_env toc) gv wld (twice_reader 0 rest ends) =
     Inr (wld\<lparr>world_vobs := world_vobs wld @ [([5], gv)]\<rparr>, twice_reader 5 rest ends)"
    by simp
  from vob_tree_section_results [OF twice_read_int(2) s 2]
  show "vob_tree_section (toc_env toc) gv wld (twice_reader 5 rest ends) =
     Inr (wld\<lparr>world_vobs := world_vobs wld @ [([6], gv)]\<rparr>, twice_reader 10 rest ends)"
    by simp
qed

lemma twice_begin:
  "read_object_begin (toc_env toc) c (twice_reader pos ((h, e) # rest) ends) =
     Inr (h, twice_reader pos rest (e # ends))"
  by (simp add: toc_defs twice_reader_def)

lemma twice_end:
  "read_object_end (toc_env toc) (twice_reader pos rest (e # ends)) =
     (if pos = e then Inr (True, twice_reader pos rest ends)
      else Inr (False, twice_reader pos rest (e # ends)))"
  by (simp add: toc_defs twice_reader_def twice_buffer_def)

lemma twice_parsed:
  "parsed_sections (toc_env twice_toc) gv (Suc (Suc 0))
     (section_header ''%'' ''oCWorld:zCWorld'')
     (empty_world, twice_reader 0 (tl twice_toc) [10], []) =
   Some (section_header ''VobTree'' [],
     \<lparr>world_vobs = [([5], gv), ([6], gv)], world_mesh = None, world_bsp_tree = None,
      world_way_net = None\<rparr>,
     twice_reader 10 [] [10],
     [PX_LOGI ''world: parsing object [{} {} {} {}]'' (section_header ''VobTree'' []),
      PX_LOGI ''world: parsing object [{} {} {} {}]'' (section_header ''VobTree'' [])])"
  by (simp add: twice_toc_def section_body_def dispatch_section_def close_section_def
      twice_begin twice_end twice_vob_tree_section section_header_def empty_world_def)

section \<open>The claims\<close>

text \<open>
  C1. Let the archive open, its root object begin, and the first \<open>n\<close> sections be
  skipped because none of them is named \<^verbatim>\<open>MeshAndBsp\<close>. If the next section is named
  \<^verbatim>\<open>MeshAndBsp\<close> and the 32-bit read at the cursor yields \<open>v\<close>, then
  \<^verbatim>\<open>determine_world_version\<close> returns \<^verbatim>\<open>gothic_2\<close> exactly when \<open>v\<close> is \<^verbatim>\<open>0x4090000\<close> and
  \<^verbatim>\<open>gothic_1\<close> for every other value. If instead the root object ends there, no
  \<^verbatim>\<open>MeshAndBsp\<close> section having been found, it returns \<^verbatim>\<open>gothic_1\<close> and logs the error line.
\<close>

theorem determine_world_version_marker:
  assumes "archive_reader_open env buf = Inr a0"
    and "read_object_begin env empty_object a0 = Inr (c0, a1)"
    and "skipped_sections env n c0 a1 = Some (c, a)"
  shows "(\<forall>a2 c' a3 v b'.
            read_object_end env a = Inr (False, a2) \<longrightarrow>
            read_object_begin env c a2 = Inr (c', a3) \<longrightarrow>
            object_name c' = ''MeshAndBsp'' \<longrightarrow>
            get_uint (input a3) = Inr (v, b') \<longrightarrow>
            (\<exists>g. determine_world_version env buf = Some (Inr (g, b', [])) \<and>
                 (g = gothic_2 \<longleftrightarrow> v = 0x4090000) \<and>
                 (g = gothic_1 \<longleftrightarrow> v \<noteq> 0x4090000))) \<and>
         (\<forall>a2. read_object_end env a = Inr (True, a2) \<longrightarrow>
            determine_world_version env buf = Some (Inr (gothic_1, input a2,
              [PX_LOGE ''world: failed to determine world version. Assuming Gothic 1.''])))"
proof -
  have d: "determine_world_version env buf = scan_loop env c a"
    using assms by (simp add: determine_world_version_def skipped_sections_scan_loop)
  show ?thesis
    unfolding d by (auto simp: scan_loop_marker scan_loop_exhausted)
qed

theorem determine_world_version_marker_witness:
  "determine_world_version (toc_env demo_toc) (demo_buffer 0) =
     Some (Inr (gothic_2, demo_buffer 15, [])) \<and>
   determine_world_version (toc_env plain_toc) (demo_buffer 0) =
     Some (Inr (gothic_1, demo_buffer 11,
       [PX_LOGE ''world: failed to determine world version. Assuming Gothic 1.'']))"
proof
  let ?root = "section_header ''%'' ''oCWorld:zCWorld''"
  let ?env = "toc_env demo_toc"
  have o: "archive_reader_open ?env (demo_buffer 0) = Inr (demo_reader 0 demo_toc [])"
    by (simp add: toc_defs demo_defs)
  have r: "read_object_begin ?env empty_object (demo_reader 0 demo_toc []) =
      Inr (?root, demo_reader 0 (tl demo_toc) [34])"
    by (simp add: toc_defs demo_defs)
  have s: "skipped_sections ?env 3 ?root (demo_reader 0 (tl demo_toc) [34]) =
      Some (section_header ''WayNet'' [], demo_reader 11 (drop 4 demo_toc) [34])"
    by (simp add: numeral_3_eq_3 scan_body_def toc_defs demo_defs)
  have e: "read_object_end ?env (demo_reader 11 (drop 4 demo_toc) [34]) =
      Inr (False, demo_reader 11 (drop 4 demo_toc) [34])"
    by (simp add: toc_defs demo_defs)
  have b: "read_object_begin ?env (section_header ''WayNet'' [])
      (demo_reader 11 (drop 4 demo_toc) [34]) =
      Inr (section_header ''MeshAndBsp'' [], demo_reader 11 [] [34, 34])"
    by (simp add: toc_defs demo_defs)
  have n: "object_name (section_header ''MeshAndBsp'' []) = ''MeshAndBsp''"
    by (simp add: section_header_def)
  have g: "get_uint (input (demo_reader 11 [] [34, 34])) = Inr (0x4090000, demo_buffer 15)"
    by (simp add: buffer_defs demo_defs)
  from determine_world_version_marker [OF o r s] e b n g
  show "determine_world_version ?env (demo_buffer 0) =
      Some (Inr (gothic_2, demo_buffer 15, []))"
    by blast
next
  let ?root = "section_header ''%'' ''oCWorld:zCWorld''"
  let ?env = "toc_env plain_toc"
  have o: "archive_reader_open ?env (demo_buffer 0) = Inr (demo_reader 0 plain_toc [])"
    by (simp add: toc_defs demo_defs)
  have r: "read_object_begin ?env empty_object (demo_reader 0 plain_toc []) =
      Inr (?root, demo_reader 0 (tl plain_toc) [11])"
    by (simp add: toc_defs demo_defs)
  have s: "skipped_sections ?env 3 ?root (demo_reader 0 (tl plain_toc) [11]) =
      Some (section_header ''WayNet'' [], demo_reader 11 [] [11])"
    by (simp add: numeral_3_eq_3 scan_body_def toc_defs demo_defs)
  have e: "read_object_end ?env (demo_reader 11 [] [11]) = Inr (True, demo_reader 11 [] [])"
    by (simp add: toc_defs demo_defs)
  from determine_world_version_marker [OF o r s] e
  show "determine_world_version ?env (demo_buffer 0) =
      Some (Inr (gothic_1, demo_buffer 11,
        [PX_LOGE ''world: failed to determine world version. Assuming Gothic 1.'']))"
    by (simp add: demo_reader_def)
qed

text \<open>
  C2. When the class name of the root object is not \<^verbatim>\<open>oCWorld:zCWorld\<close>, \<^verbatim>\<open>world::parse\<close>
  raises the \<^verbatim>\<open>parser_error\<close> for \<^verbatim>\<open>world\<close> whose text names the expected class and the
  class that was read. No section is dispatched: the result is the same whatever the
  decoders, the integer read, the skip and the object end of the reader would do.
\<close>

theorem world_parse_wrong_root:
  assumes "archive_reader_open env inb = Inr a0"
    and "read_object_begin env empty_object a0 = Inr (c, a1)"
    and "class_name c \<noteq> ''oCWorld:zCWorld''"
  shows "world_parse
      (env\<lparr>read_object_end := f1, skip_object := f2, read_int := f3, bsp_tree_parse := f4,
           mesh_parse := f5, parse_vob_tree := f6, way_net_parse := f7\<rparr>) inb gv =
    Some (Inl (parser_error ''world'' None
      (Some ([CHR 0x27] @ ''oCWorld:zCWorld'' @ [CHR 0x27] @ '' chunk expected, got '' @
             [CHR 0x27] @ class_name c @ [CHR 0x27]))))"
  using assms
  by (simp add: world_parse_def world_parse_try_def catch_buffer_error_def chunk_expected_def
      quote_def)

theorem world_parse_wrong_root_witness:
  "world_parse
     ((toc_env wrong_toc)
        \<lparr>read_object_end := \<lambda>a. Inl (other_error ''called''),
         skip_object := \<lambda>c a. Inl (other_error ''called''),
         read_int := \<lambda>a. Inl (other_error ''called''),
         bsp_tree_parse := \<lambda>b v. Inl (other_error ''called''),
         mesh_parse := \<lambda>b p. Inl (other_error ''called''),
         parse_vob_tree := \<lambda>a g. Inl (other_error ''called''),
         way_net_parse := \<lambda>a. Inl (other_error ''called'')\<rparr>)
     (demo_buffer 0) gothic_2 =
   Some (Inl (parser_error ''world'' None
     (Some ([CHR 0x27] @ ''oCWorld:zCWorld'' @ [CHR 0x27] @ '' chunk expected, got '' @
            [CHR 0x27] @ ''zCWorld'' @ [CHR 0x27]))))"
proof -
  have r: "read_object_begin (toc_env wrong_toc) empty_object (demo_reader 0 wrong_toc []) =
      Inr (section_header ''%'' ''zCWorld'', demo_reader 0 (tl demo_toc) [34])"
    by (simp add: wrong_toc_def demo_begin)
  have c: "class_name (section_header ''%'' ''zCWorld'') \<noteq> ''oCWorld:zCWorld''"
    by (simp add: section_header_def)
  from world_parse_wrong_root [OF demo_open r c] show ?thesis
    by (simp add: section_header_def)
qed

text \<open>
  C3. In every world that \<^verbatim>\<open>world::parse\<close> returns, the mesh is assigned if and only if
  the tree is, and they are assigned if and only if the loop entered a section named
  \<^verbatim>\<open>MeshAndBsp\<close>.
\<close>

theorem world_mesh_iff_bsp_tree:
  assumes "world_parse env inb gv = Some (Inr (wld, b, lg))"
  shows "(world_mesh wld \<noteq> None \<longleftrightarrow> world_bsp_tree wld \<noteq> None) \<and>
         (world_mesh wld \<noteq> None \<longleftrightarrow>
            (\<exists>c. PX_LOGI ''world: parsing object [{} {} {} {}]'' c \<in> set lg \<and>
                 object_name c = ''MeshAndBsp''))"
proof -
  from assms have t: "world_parse_try env inb gv = Some (Inr (wld, b, lg))"
    by (auto simp: world_parse_def catch_buffer_error_Inr)
  then obtain c0 a1 where
    l: "section_loop env gv c0 (empty_world, a1, []) = Some (Inr (wld, b, lg))"
    by (auto simp: world_parse_try_def split: sum.splits prod.splits if_splits)
  have "(world_mesh wld \<noteq> None \<longleftrightarrow> world_bsp_tree wld \<noteq> None) \<and>
      (world_mesh wld \<noteq> None \<longleftrightarrow> marker_logged lg)"
    by (rule section_loop_invariant [OF l, where I = "\<lambda>w l.
        (world_mesh w \<noteq> None \<longleftrightarrow> world_bsp_tree w \<noteq> None) \<and>
        (world_mesh w \<noteq> None \<longleftrightarrow> marker_logged l)"])
      (simp add: empty_world_def marker_logged_def, erule (1) section_body_paired)
  then show ?thesis unfolding marker_logged_def by blast
qed

theorem world_mesh_iff_bsp_tree_witness:
  "world_parse (toc_env demo_toc) (demo_buffer 0) gothic_2 =
     Some (Inr (demo_world, demo_buffer 34, demo_log)) \<and>
   (world_mesh demo_world \<noteq> None \<longleftrightarrow> world_bsp_tree demo_world \<noteq> None) \<and>
   (world_mesh demo_world \<noteq> None \<longleftrightarrow>
      (\<exists>c. PX_LOGI ''world: parsing object [{} {} {} {}]'' c \<in> set demo_log \<and>
           object_name c = ''MeshAndBsp'')) \<and>
   world_parse (toc_env plain_toc) (demo_buffer 0) gothic_1 =
     Some (Inr (plain_world gothic_1, demo_buffer 11, plain_log)) \<and>
   (world_mesh (plain_world gothic_1) \<noteq> None \<longleftrightarrow>
      world_bsp_tree (plain_world gothic_1) \<noteq> None) \<and>
   (world_mesh (plain_world gothic_1) \<noteq> None \<longleftrightarrow>
      (\<exists>c. PX_LOGI ''world: parsing object [{} {} {} {}]'' c \<in> set plain_log \<and>
           object_name c = ''MeshAndBsp''))"
  using world_mesh_iff_bsp_tree [OF demo_world_parse]
    world_mesh_iff_bsp_tree [OF plain_world_parse [of gothic_1]]
    demo_world_parse plain_world_parse [of gothic_1]
  by blast



text \<open>
  C5, as the code has it. Let \<^verbatim>\<open>world::parse\<close> have parsed \<open>n\<close> sections and enter a
  section named \<^verbatim>\<open>VobTree\<close> that declares the count \<open>N \<ge> 0\<close>, and let the \<open>N\<close> calls of
  the decoder return the results \<open>rs\<close>. Then the parse goes on with the forest it had,
  followed by exactly the nodes among \<open>rs\<close> in their order: at most \<open>N\<close> new entries,
  and fewer than \<open>N\<close> exactly when a call returned no node. When the root object ends
  there, the parse returns the world with this forest, which has at most \<open>N\<close> entries
  when the forest was empty before the section.
\<close>

theorem vob_tree_section_forest:
  assumes "archive_reader_open env inb = Inr a0"
    and "read_object_begin env empty_object a0 = Inr (c0, a1)"
    and "class_name c0 = ''oCWorld:zCWorld''"
    and "parsed_sections env gv n c0 (empty_world, a1, []) = Some (c, wld, a, lg)"
    and "read_object_end env a = Inr (False, a2)"
    and "read_object_begin env c a2 = Inr (c', a3)"
    and "object_name c' = ''VobTree''"
    and "read_int env a3 = Inr (count, a4)"
    and "0 \<le> sint count"
    and "decoder_results env gv (nat (sint count)) a4 = Inr (rs, a5)"
    and "close_section env c' a5 = Inr (a6, warn)"
  shows "world_parse env inb gv =
           map_option catch_buffer_error
             (section_loop env gv c'
                (wld\<lparr>world_vobs := world_vobs wld @ nodes rs\<rparr>, a6,
                 lg @ [PX_LOGI ''world: parsing object [{} {} {} {}]'' c'] @ warn)) \<and>
         length rs = nat (sint count) \<and>
         length (nodes rs) \<le> nat (sint count) \<and>
         (length (nodes rs) < nat (sint count) \<longleftrightarrow> None \<in> set rs) \<and>
         (\<forall>a7. read_object_end env a6 = Inr (True, a7) \<longrightarrow>
            world_parse env inb gv =
              Some (Inr (wld\<lparr>world_vobs := world_vobs wld @ nodes rs\<rparr>, input a7,
                lg @ [PX_LOGI ''world: parsing object [{} {} {} {}]'' c'] @ warn))) \<and>
         (world_vobs wld = [] \<longrightarrow>
            length (world_vobs (wld\<lparr>world_vobs := world_vobs wld @ nodes rs\<rparr>))
              \<le> nat (sint count))"
proof -
  have l: "length rs = nat (sint count)"
    using assms(10) by (rule decoder_results_length)
  have d: "dispatch_section env gv c' wld a3 =
      Inr (wld\<lparr>world_vobs := world_vobs wld @ nodes rs\<rparr>, a5)"
    using assms(7) vob_tree_section_results [OF assms(8-10)]
    by (simp add: dispatch_section_def)
  note w = world_parse_section [OF assms(1-6) d assms(11)]
  from w(1) w(2) l length_nodes [of rs] length_nodes_less [of rs] show ?thesis
    by auto
qed

theorem vob_tree_section_forest_witness:
  "world_parse (toc_env tree_toc) (demo_buffer 0) gothic_2 =
     Some (Inr (\<lparr>world_vobs = [([5], gothic_2), ([6], gothic_2)], world_mesh = None,
                 world_bsp_tree = None, world_way_net = None\<rparr>,
                demo_buffer 9, take 3 plain_log)) \<and>
   decoder_results (toc_env tree_toc) gothic_2 3 (demo_reader 6 [] [9, 9]) =
     Inr ([Some ([5], gothic_2), None, Some ([6], gothic_2)], demo_reader 9 [] [9, 9])"
proof -
  let ?env = "toc_env tree_toc"
  let ?tree = "section_header ''VobTree'' []"
  have r: "read_object_begin ?env empty_object (demo_reader 0 tree_toc []) =
      Inr (section_header ''%'' ''oCWorld:zCWorld'', demo_reader 0 (tl tree_toc) [9])"
    by (simp add: tree_toc_def demo_begin)
  have c: "class_name (section_header ''%'' ''oCWorld:zCWorld'') = ''oCWorld:zCWorld''"
    by (simp add: section_header_def)
  have e: "read_object_end ?env (demo_reader 2 [(?tree, 9)] [9]) =
      Inr (False, demo_reader 2 [(?tree, 9)] [9])"
    by (simp add: demo_end)
  have b: "read_object_begin ?env (section_header ''Other'' ''zCOther'')
      (demo_reader 2 [(?tree, 9)] [9]) = Inr (?tree, demo_reader 2 [] [9, 9])"
    by (simp add: demo_begin)
  have n: "object_name ?tree = ''VobTree''"
    by (simp add: section_header_def)
  have s: "0 \<le> sint (3 :: 32 word)" by simp
  have d: "decoder_results ?env gothic_2 (nat (sint (3 :: 32 word))) (demo_reader 6 [] [9, 9]) =
      Inr ([Some ([5], gothic_2), None, Some ([6], gothic_2)], demo_reader 9 [] [9, 9])"
    by (simp add: demo_decoder_results)
  have cl: "close_section ?env ?tree (demo_reader 9 [] [9, 9]) = Inr (demo_reader 9 [] [9], [])"
    by (rule demo_close_done)
  have f: "read_object_end ?env (demo_reader 9 [] [9]) = Inr (True, demo_reader 9 [] [])"
    by (simp add: demo_end)
  have l: "take 2 plain_log @ [PX_LOGI ''world: parsing object [{} {} {} {}]'' ?tree] @ [] =
      take 3 plain_log"
    by (simp add: plain_log_def)
  note t = vob_tree_section_forest [OF demo_open r c tree_parsed e b n demo_read_int s d cl]
  note u = t [THEN conjunct2, THEN conjunct2, THEN conjunct2, THEN conjunct2, THEN conjunct1,
    rule_format, OF f, unfolded l demo_input]
  from u have "world_parse ?env (demo_buffer 0) gothic_2 =
      Some (Inr (\<lparr>world_vobs = [([5], gothic_2), ([6], gothic_2)], world_mesh = None,
                  world_bsp_tree = None, world_way_net = None\<rparr>,
                 demo_buffer 9, take 3 plain_log))"
    by (simp add: empty_world_def)
  with d show ?thesis by simp
qed

text \<open>
  C5 as stated fails on a world with two sections named \<^verbatim>\<open>VobTree\<close>: the second declares
  the count 1, and the forest that results has two entries.
\<close>

theorem vob_forest_exceeds_count:
  "world_parse (toc_env twice_toc) (twice_buffer 0) gothic_1 =
     Some (Inr (\<lparr>world_vobs = [([5], gothic_1), ([6], gothic_1)], world_mesh = None,
                 world_bsp_tree = None, world_way_net = None\<rparr>,
                twice_buffer 10,
                [PX_LOGI ''world: parsing object [{} {} {} {}]'' (section_header ''VobTree'' []),
                 PX_LOGI ''world: parsing object [{} {} {} {}]''
                   (section_header ''VobTree'' [])])) \<and>
   read_int (toc_env twice_toc) (twice_reader 5 [] [10, 10]) =
     Inr (1, twice_reader 9 [] [10, 10])"
proof -
  let ?env = "toc_env twice_toc"
  let ?root = "section_header ''%'' ''oCWorld:zCWorld''"
  have o: "archive_reader_open ?env (twice_buffer 0) = Inr (twice_reader 0 twice_toc [])"
    by (simp add: toc_defs twice_reader_def)
  have r: "read_object_begin ?env empty_object (twice_reader 0 twice_toc []) =
      Inr (?root, twice_reader 0 (tl twice_toc) [10])"
    by (simp add: twice_toc_def twice_begin)
  have c: "class_name ?root = ''oCWorld:zCWorld''"
    by (simp add: section_header_def)
  have e: "read_object_end ?env (twice_reader 10 [] [10]) = Inr (True, twice_reader 10 [] [])"
    by (simp add: twice_end)
  from world_parse_prefix [OF o r c twice_parsed, of gothic_1] section_loop_end [OF e]
  have "world_parse ?env (twice_buffer 0) gothic_1 =
     Some (Inr (\<lparr>world_vobs = [([5], gothic_1), ([6], gothic_1)], world_mesh = None,
                 world_bsp_tree = None, world_way_net = None\<rparr>,
                twice_buffer 10,
                [PX_LOGI ''world: parsing object [{} {} {} {}]'' (section_header ''VobTree'' []),
                 PX_LOGI ''world: parsing object [{} {} {} {}]''
                   (section_header ''VobTree'' [])]))"
    by (simp add: catch_buffer_error_def twice_reader_def)
  with twice_read_int(2) show ?thesis by simp
qed

text \<open>
  C6. Let \<^verbatim>\<open>world::parse\<close> have parsed \<open>n\<close> sections and enter the next one. If, after the
  dispatch, closing the section reports unread bytes and skipping the object raises
  nothing, then the parse goes on with the next sibling, with the world as the dispatch
  left it and with the warning in the log behind the line for the section; the world is
  unchanged when the section has none of the three names; and when the root object ends
  there, the parse returns that world.
\<close>

theorem section_not_fully_parsed:
  assumes "archive_reader_open env inb = Inr a0"
    and "read_object_begin env empty_object a0 = Inr (c0, a1)"
    and "class_name c0 = ''oCWorld:zCWorld''"
    and "parsed_sections env gv n c0 (empty_world, a1, []) = Some (c, wld, a, lg)"
    and "read_object_end env a = Inr (False, a2)"
    and "read_object_begin env c a2 = Inr (c', a3)"
    and "dispatch_section env gv c' wld a3 = Inr (wld', a4)"
    and "read_object_end env a4 = Inr (False, a5)"
    and "skip_object env True a5 = Inr a6"
  shows "world_parse env inb gv =
           map_option catch_buffer_error
             (section_loop env gv c' (wld', a6,
                lg @ [PX_LOGI ''world: parsing object [{} {} {} {}]'' c',
                      PX_LOGW ''world: object [{} {} {} {}] not fully parsed'' c'])) \<and>
         (object_name c' \<noteq> ''MeshAndBsp'' \<and> object_name c' \<noteq> ''VobTree'' \<and>
          object_name c' \<noteq> ''WayNet'' \<longrightarrow> wld' = wld) \<and>
         (\<forall>a7. read_object_end env a6 = Inr (True, a7) \<longrightarrow>
            world_parse env inb gv =
              Some (Inr (wld', input a7,
                lg @ [PX_LOGI ''world: parsing object [{} {} {} {}]'' c',
                      PX_LOGW ''world: object [{} {} {} {}] not fully parsed'' c'])))"
proof -
  let ?lg = "lg @ [PX_LOGI ''world: parsing object [{} {} {} {}]'' c',
                   PX_LOGW ''world: object [{} {} {} {}] not fully parsed'' c']"
  have cl: "close_section env c' a4 =
      Inr (a6, [PX_LOGW ''world: object [{} {} {} {}] not fully parsed'' c'])"
    using assms(8,9) by (simp add: close_section_def)
  have body: "section_body env gv c (wld, a2, lg) = Inr (c', wld', a6, ?lg)"
    using assms(6,7) cl by (simp add: section_body_def)
  have loop: "section_loop env gv c (wld, a, lg) = section_loop env gv c' (wld', a6, ?lg)"
    using assms(5) body by (rule section_loop_step)
  have p: "world_parse env inb gv =
      map_option catch_buffer_error (section_loop env gv c' (wld', a6, ?lg))"
    using world_parse_prefix [OF assms(1-4)] loop by simp
  have u: "object_name c' \<noteq> ''MeshAndBsp'' \<and> object_name c' \<noteq> ''VobTree'' \<and>
      object_name c' \<noteq> ''WayNet'' \<longrightarrow> wld' = wld"
    using assms(7) by (auto simp: dispatch_section_def)
  have e: "\<forall>a7. read_object_end env a6 = Inr (True, a7) \<longrightarrow>
      world_parse env inb gv = Some (Inr (wld', input a7, ?lg))"
    by (simp add: p section_loop_end catch_buffer_error_def)
  from p u e show ?thesis by blast
qed

theorem section_not_fully_parsed_witness:
  "world_parse (toc_env plain_toc) (demo_buffer 0) gothic_1 =
     Some (Inr (plain_world gothic_1, demo_buffer 11, plain_log)) \<and>
   world_way_net (plain_world gothic_1) = Some [9] \<and>
   world_parse (toc_env plain_toc) (demo_buffer 0) gothic_1 =
     map_option catch_buffer_error
       (section_loop (toc_env plain_toc) gothic_1 (section_header ''Other'' ''zCOther'')
          (empty_world,
           demo_reader 2 [(section_header ''VobTree'' [], 9), (section_header ''WayNet'' [], 11)]
             [11],
           take 2 plain_log))"
proof -
  let ?env = "toc_env plain_toc"
  let ?root = "section_header ''%'' ''oCWorld:zCWorld''"
  let ?way = "section_header ''WayNet'' []"
  let ?other = "section_header ''Other'' ''zCOther''"
  let ?rest = "[(section_header ''VobTree'' [], 9), (?way, 11)]"
  have r: "read_object_begin ?env empty_object (demo_reader 0 plain_toc []) =
      Inr (?root, demo_reader 0 (tl plain_toc) [11])"
    by (simp add: plain_toc_def demo_begin)
  have c: "class_name ?root = ''oCWorld:zCWorld''"
    by (simp add: section_header_def)
  have e: "read_object_end ?env (demo_reader 9 [(?way, 11)] [11]) =
      Inr (False, demo_reader 9 [(?way, 11)] [11])"
    by (simp add: demo_end)
  have b: "read_object_begin ?env (section_header ''VobTree'' [])
      (demo_reader 9 [(?way, 11)] [11]) = Inr (?way, demo_reader 9 [] [11, 11])"
    by (simp add: demo_begin)
  have d: "dispatch_section ?env gothic_1 ?way
      ((plain_world gothic_1)\<lparr>world_way_net := None\<rparr>) (demo_reader 9 [] [11, 11]) =
      Inr (plain_world gothic_1, demo_reader 10 [] [11, 11])"
    by (simp add: dispatch_section_def way_net_section_def demo_way_net section_header_def
        plain_world_def)
  have e': "read_object_end ?env (demo_reader 10 [] [11, 11]) =
      Inr (False, demo_reader 10 [] [11, 11])"
    by (simp add: demo_end)
  have s: "skip_object ?env True (demo_reader 10 [] [11, 11]) = Inr (demo_reader 11 [] [11])"
    by (simp add: demo_skip)
  have f: "read_object_end ?env (demo_reader 11 [] [11]) = Inr (True, demo_reader 11 [] [])"
    by (simp add: demo_end)
  have l: "take 3 plain_log @
      [PX_LOGI ''world: parsing object [{} {} {} {}]'' ?way,
       PX_LOGW ''world: object [{} {} {} {}] not fully parsed'' ?way] = plain_log"
    by (simp add: plain_log_def)
  from section_not_fully_parsed [OF demo_open r c plain_parsed e b d e' s] f
  have "world_parse ?env (demo_buffer 0) gothic_1 =
      Some (Inr (plain_world gothic_1, input (demo_reader 11 [] []),
        take 3 plain_log @
        [PX_LOGI ''world: parsing object [{} {} {} {}]'' ?way,
         PX_LOGW ''world: object [{} {} {} {}] not fully parsed'' ?way]))"
    by blast
  then have 1: "world_parse ?env (demo_buffer 0) gothic_1 =
      Some (Inr (plain_world gothic_1, demo_buffer 11, plain_log))"
    by (simp only: l demo_input)
  have p0: "parsed_sections ?env gothic_1 0 ?root
      (empty_world, demo_reader 0 (tl plain_toc) [11], []) =
      Some (?root, empty_world, demo_reader 0 (tl plain_toc) [11], [])"
    by simp
  have e0: "read_object_end ?env (demo_reader 0 (tl plain_toc) [11]) =
      Inr (False, demo_reader 0 (tl plain_toc) [11])"
    by (simp add: demo_end)
  have b0: "read_object_begin ?env ?root (demo_reader 0 (tl plain_toc) [11]) =
      Inr (?other, demo_reader 0 ?rest [2, 11])"
    by (simp add: plain_toc_def demo_begin)
  have d0: "dispatch_section ?env gothic_1 ?other empty_world (demo_reader 0 ?rest [2, 11]) =
      Inr (empty_world, demo_reader 0 ?rest [2, 11])"
    by (simp add: dispatch_section_def section_header_def)
  have e0': "read_object_end ?env (demo_reader 0 ?rest [2, 11]) =
      Inr (False, demo_reader 0 ?rest [2, 11])"
    by (simp add: demo_end)
  have s0: "skip_object ?env True (demo_reader 0 ?rest [2, 11]) = Inr (demo_reader 2 ?rest [11])"
    by (simp add: demo_skip)
  have l0: "[] @
      [PX_LOGI ''world: parsing object [{} {} {} {}]'' ?other,
       PX_LOGW ''world: object [{} {} {} {}] not fully parsed'' ?other] = take 2 plain_log"
    by (simp add: plain_log_def)
  from section_not_fully_parsed [OF demo_open r c p0 e0 b0 d0 e0' s0]
  have "world_parse ?env (demo_buffer 0) gothic_1 =
      map_option catch_buffer_error
        (section_loop ?env gothic_1 ?other (empty_world, demo_reader 2 ?rest [11],
           [] @
           [PX_LOGI ''world: parsing object [{} {} {} {}]'' ?other,
            PX_LOGW ''world: object [{} {} {} {}] not fully parsed'' ?other]))"
    by blast
  then have 2: "world_parse ?env (demo_buffer 0) gothic_1 =
      map_option catch_buffer_error
        (section_loop ?env gothic_1 ?other (empty_world, demo_reader 2 ?rest [11],
           take 2 plain_log))"
    by (simp only: l0)
  from 1 2 show ?thesis by (simp add: plain_world_def)
qed

text \<open>
  C7. \<^verbatim>\<open>world::parse(buffer&)\<close> resolves the version on a duplicate: the buffer at the
  address \<^verbatim>\<open>buf\<close> is after the resolution what it was before, and the parse that follows
  runs on it as it would on a fresh duplicate of the buffer.
\<close>

theorem world_parse_entry_duplicate:
  assumes "buf < length store"
  shows "world_parse_entry env store buf =
           (case determine_world_version env (duplicate (store ! buf)) of
              None \<Rightarrow> None
            | Some (Inl e) \<Rightarrow> Some (Inl e)
            | Some (Inr (gv, b', lg)) \<Rightarrow>
                (case world_parse env (duplicate (store ! buf)) gv of
                   None \<Rightarrow> None
                 | Some (Inl e) \<Rightarrow> Some (Inl e)
                 | Some (Inr (wld, b'', lg')) \<Rightarrow>
                     Some (Inr (wld, store[buf := b''], lg @ lg')))) \<and>
         (\<forall>gv store' lg.
            call_by_reference (determine_world_version env)
              (store @ [duplicate (store ! buf)]) (length store) = Some (Inr (gv, store', lg)) \<longrightarrow>
            store' ! buf = store ! buf \<and>
            world_parse env (store' ! buf) gv = world_parse env (duplicate (store ! buf)) gv)"
proof
  show "\<forall>gv store' lg.
      call_by_reference (determine_world_version env)
        (store @ [duplicate (store ! buf)]) (length store) = Some (Inr (gv, store', lg)) \<longrightarrow>
      store' ! buf = store ! buf \<and>
      world_parse env (store' ! buf) gv = world_parse env (duplicate (store ! buf)) gv"
    using assms
    by (auto simp: call_by_reference_def duplicate_same nth_append
        split: option.splits sum.splits)
  show "world_parse_entry env store buf =
           (case determine_world_version env (duplicate (store ! buf)) of
              None \<Rightarrow> None
            | Some (Inl e) \<Rightarrow> Some (Inl e)
            | Some (Inr (gv, b', lg)) \<Rightarrow>
                (case world_parse env (duplicate (store ! buf)) gv of
                   None \<Rightarrow> None
                 | Some (Inl e) \<Rightarrow> Some (Inl e)
                 | Some (Inr (wld, b'', lg')) \<Rightarrow>
                     Some (Inr (wld, store[buf := b''], lg @ lg'))))"
    using assms
    by (auto simp: world_parse_entry_def call_by_reference_def Let_def duplicate_same
        nth_append butlast_list_update split: option.splits sum.splits)
qed

theorem world_parse_entry_duplicate_witness:
  "world_parse_entry (toc_env demo_toc) [demo_buffer 0] 0 =
     Some (Inr (demo_world, [demo_buffer 34], demo_log))"
proof -
  have "(0 :: nat) < length [demo_buffer 0]" by simp
  from world_parse_entry_duplicate [OF this, of "toc_env demo_toc"] show ?thesis
    by (simp add: duplicate_same demo_version demo_world_parse)
qed

text \<open>
  C8, as the code has it. \<^verbatim>\<open>determine_world_version\<close> has no handler: the call raises
  \<open>e\<close> exactly when one of the operations it calls raises \<open>e\<close> (opening the archive,
  beginning the root object, and after any number of skipped sections ending the object,
  beginning the next section, the 32-bit read in a section named \<^verbatim>\<open>MeshAndBsp\<close>, skipping
  another section). And when every skipped section brings the reader closer to its end,
  the call returns: a game version, or such an error.
\<close>

theorem determine_world_version_propagates:
  "(determine_world_version env buf = Some (Inl e) \<longleftrightarrow> raised_in env buf e) \<and>
   ((\<forall>c a a1 c1 a2.
       read_object_end env a = Inr (False, a1) \<longrightarrow>
       scan_body env c a1 = Inr (Continue c1, a2) \<longrightarrow> m a2 < (m a :: nat)) \<longrightarrow>
    (\<exists>g b lg. determine_world_version env buf = Some (Inr (g, b, lg))) \<or>
    (\<exists>e'. determine_world_version env buf = Some (Inl e') \<and> raised_in env buf e'))"
proof
  show "determine_world_version env buf = Some (Inl e) \<longleftrightarrow> raised_in env buf e"
    by (rule determine_world_version_Inl)
  show "(\<forall>c a a1 c1 a2.
       read_object_end env a = Inr (False, a1) \<longrightarrow>
       scan_body env c a1 = Inr (Continue c1, a2) \<longrightarrow> m a2 < m a) \<longrightarrow>
    (\<exists>g b lg. determine_world_version env buf = Some (Inr (g, b, lg))) \<or>
    (\<exists>e'. determine_world_version env buf = Some (Inl e') \<and> raised_in env buf e')"
  proof
    assume progress: "\<forall>c a a1 c1 a2.
       read_object_end env a = Inr (False, a1) \<longrightarrow>
       scan_body env c a1 = Inr (Continue c1, a2) \<longrightarrow> m a2 < m a"
    have "determine_world_version env buf \<noteq> None"
    proof (cases "archive_reader_open env buf")
      case (Inl e')
      then show ?thesis by (simp add: determine_world_version_def)
    next
      case o: (Inr a0)
      show ?thesis
      proof (cases "read_object_begin env empty_object a0")
        case (Inl e')
        with o show ?thesis by (simp add: determine_world_version_def)
      next
        case (Inr p)
        obtain c0 a1 where p: "p = (c0, a1)" by (cases p)
        from progress have "scan_loop env c0 a1 \<noteq> None"
          by (intro scan_loop_returns [where m = m]) blast
        with o Inr p show ?thesis by (simp add: determine_world_version_def)
      qed
    qed
    then obtain r where r: "determine_world_version env buf = Some r" by auto
    show "(\<exists>g b lg. determine_world_version env buf = Some (Inr (g, b, lg))) \<or>
      (\<exists>e'. determine_world_version env buf = Some (Inl e') \<and> raised_in env buf e')"
    proof (cases r)
      case (Inl e')
      with r determine_world_version_Inl [of env buf e'] show ?thesis by auto
    next
      case (Inr x)
      with r show ?thesis by (cases x) auto
    qed
  qed
qed

theorem determine_world_version_propagates_witness:
  "raised_in (toc_env cut_toc) cut_buffer (buffer_error ''buffer underflow'') \<and>
   determine_world_version (toc_env cut_toc) cut_buffer =
     Some (Inl (buffer_error ''buffer underflow''))"
proof -
  let ?env = "toc_env cut_toc"
  let ?root = "section_header ''%'' ''oCWorld:zCWorld''"
  let ?a0 = "\<lparr>input = cut_buffer, reader_state = \<lparr>pending = cut_toc, open_ends = []\<rparr>\<rparr>"
  let ?a1 = "\<lparr>input = cut_buffer, reader_state = \<lparr>pending = tl cut_toc, open_ends = [40]\<rparr>\<rparr>"
  let ?a2 = "\<lparr>input = cut_buffer, reader_state = \<lparr>pending = [], open_ends = [40, 40]\<rparr>\<rparr>"
  have o: "archive_reader_open ?env cut_buffer = Inr ?a0"
    by (simp add: toc_defs)
  have r: "read_object_begin ?env empty_object ?a0 = Inr (?root, ?a1)"
    by (simp add: toc_defs cut_toc_def)
  have s: "skipped_sections ?env 0 ?root ?a1 = Some (?root, ?a1)"
    by simp
  have e: "read_object_end ?env ?a1 = Inr (False, ?a1)"
    by (simp add: toc_defs cut_buffer_def)
  have b: "read_object_begin ?env ?root ?a1 = Inr (section_header ''MeshAndBsp'' [], ?a2)"
    by (simp add: toc_defs cut_toc_def)
  have g: "get_uint (input ?a2) = Inl (buffer_error ''buffer underflow'')"
    by (simp add: buffer_defs cut_buffer_def)
  have "raised_at ?env ?root ?a1 (buffer_error ''buffer underflow'')"
    unfolding raised_at_def using e b g by (simp add: section_header_def)
  with o r s have i: "raised_in ?env cut_buffer (buffer_error ''buffer underflow'')"
    unfolding raised_in_def by blast
  have p: "\<forall>c a a1 c1 a2.
      read_object_end ?env a = Inr (False, a1) \<longrightarrow>
      scan_body ?env c a1 = Inr (Continue c1, a2) \<longrightarrow> toc_left a2 < toc_left a"
    using toc_progress by blast
  from determine_world_version_propagates
    [of ?env cut_buffer "buffer_error ''buffer underflow''" toc_left] i p
  show ?thesis by blast
qed

text \<open>
  C8 as stated fails on the file that ends two bytes after the header of its geometry
  section: the 32-bit read raises, and so does \<^verbatim>\<open>determine_world_version\<close>.
\<close>

theorem determine_world_version_raises:
  "determine_world_version (toc_env cut_toc) cut_buffer =
     Some (Inl (buffer_error ''buffer underflow''))"
  by (simp add: determine_world_version_def toc_defs demo_defs)
    (subst scan_loop.simps, simp add: scan_body_def toc_defs buffer_defs)

text \<open>
  C9. Let \<^verbatim>\<open>world::parse\<close> have parsed \<open>n\<close> sections and enter a section named
  \<^verbatim>\<open>MeshAndBsp\<close>, and let the two 32-bit reads return. Behind them the loop of lines 76
  to 79 does what the specification says of the filler chunks, for any number of them:
  on the bytes of any sequence of chunks of other types followed by a chunk of type
  \<^verbatim>\<open>0xB060\<close> it stops behind that chunk. The tree decoder is called there with the first
  32-bit value, the mesh decoder on the slice taken before the chunks with the leaf
  polygons of the tree, and the parse goes on (and returns, when the root object ends)
  with both results stored. Without a chunk of type \<^verbatim>\<open>0xB060\<close> the parse fails with the
  end-of-stream error whatever the decoders are; when the tree decoder raises, the parse
  fails with its error whatever the mesh decoder is.
\<close>

theorem mesh_and_bsp_section_protocol:
  assumes "archive_reader_open env inb = Inr a0"
    and "read_object_begin env empty_object a0 = Inr (c0, a1)"
    and "class_name c0 = ''oCWorld:zCWorld''"
    and "parsed_sections env gv n c0 (empty_world, a1, []) = Some (c, wld, a, lg)"
    and "read_object_end env a = Inr (False, a2)"
    and "read_object_begin env c a2 = Inr (c', a3)"
    and "object_name c' = ''MeshAndBsp''"
    and "get_uint (input a3) = Inr (ver, in1)"
    and "get_uint in1 = Inr (declared, in2)"
  shows "(\<forall>in3. skip_chunks in2 = Inr in3 \<longleftrightarrow> filler_chunks in2 in3) \<and>
         (\<forall>fillers payload pre post.
            (\<forall>(t, p) \<in> set fillers. t \<noteq> 0xB060 \<and> length p < 2 ^ 32) \<longrightarrow>
            length payload < 2 ^ 32 \<longrightarrow>
            in2 = \<lparr>bytes = pre @ chunks_bytes fillers @ chunk_bytes 0xB060 payload @ post,
                   position = length pre\<rparr> \<longrightarrow>
            filler_chunks in2
              (in2\<lparr>position :=
                 length (pre @ chunks_bytes fillers @ chunk_bytes 0xB060 payload)\<rparr>)) \<and>
         (\<forall>in3 tree in4 m a4 warn.
            filler_chunks in2 in3 \<longrightarrow>
            bsp_tree_parse env in3 ver = Inr (tree, in4) \<longrightarrow>
            mesh_parse env (slice in2) (leaf_polygons tree) = Inr m \<longrightarrow>
            close_section env c' (a3\<lparr>input := in4\<rparr>) = Inr (a4, warn) \<longrightarrow>
            world_parse env inb gv =
              map_option catch_buffer_error
                (section_loop env gv c'
                   (wld\<lparr>world_bsp_tree := Some tree, world_mesh := Some m\<rparr>, a4,
                    lg @ [PX_LOGI ''world: parsing object [{} {} {} {}]'' c'] @ warn)) \<and>
            (\<forall>a5. read_object_end env a4 = Inr (True, a5) \<longrightarrow>
               world_parse env inb gv =
                 Some (Inr (wld\<lparr>world_bsp_tree := Some tree, world_mesh := Some m\<rparr>,
                   input a5,
                   lg @ [PX_LOGI ''world: parsing object [{} {} {} {}]'' c'] @ warn)))) \<and>
         ((\<forall>in3. \<not> filler_chunks in2 in3) \<longrightarrow>
            world_parse env inb gv =
              Some (Inl (parser_error ''world'' (Some (buffer_error ''buffer underflow''))
                (Some ''eof reached''))) \<and>
            (\<forall>f g. mesh_and_bsp_section (env\<lparr>bsp_tree_parse := f, mesh_parse := g\<rparr>) wld a3 =
               Inl (buffer_error ''buffer underflow''))) \<and>
         (\<forall>in3 e.
            filler_chunks in2 in3 \<longrightarrow>
            bsp_tree_parse env in3 ver = Inl e \<longrightarrow>
            world_parse env inb gv = Some (catch_buffer_error (Inl e)) \<and>
            (\<forall>g. mesh_and_bsp_section (env\<lparr>mesh_parse := g\<rparr>) wld a3 = Inl e))"
proof (intro conjI allI impI)
  fix in3
  show "skip_chunks in2 = Inr in3 \<longleftrightarrow> filler_chunks in2 in3"
    by (auto intro: skip_chunks_filler filler_skip_chunks)
next
  fix fillers :: "(16 word \<times> 8 word list) list" and payload pre post
  assume f: "\<forall>(t, p) \<in> set fillers. t \<noteq> 0xB060 \<and> length p < 2 ^ 32"
    and p: "length payload < 2 ^ 32"
    and b: "in2 = \<lparr>bytes = pre @ chunks_bytes fillers @ chunk_bytes 0xB060 payload @ post,
                   position = length pre\<rparr>"
  from skip_chunks_any_number [OF f p, of pre post] b
  show "filler_chunks in2
      (in2\<lparr>position := length (pre @ chunks_bytes fillers @ chunk_bytes 0xB060 payload)\<rparr>)"
    by (intro skip_chunks_filler) simp
next
  fix in3 tree in4 m a4 warn
  assume h: "filler_chunks in2 in3" "bsp_tree_parse env in3 ver = Inr (tree, in4)"
    "mesh_parse env (slice in2) (leaf_polygons tree) = Inr m"
    and cl: "close_section env c' (a3\<lparr>input := in4\<rparr>) = Inr (a4, warn)"
  have d: "dispatch_section env gv c' wld a3 =
      Inr (wld\<lparr>world_bsp_tree := Some tree, world_mesh := Some m\<rparr>, a3\<lparr>input := in4\<rparr>)"
    using assms(7) mesh_and_bsp_section_results [OF assms(8,9) h]
    by (simp add: dispatch_section_def)
  note w = world_parse_section [OF assms(1-6) d cl]
  show "world_parse env inb gv =
      map_option catch_buffer_error
        (section_loop env gv c'
           (wld\<lparr>world_bsp_tree := Some tree, world_mesh := Some m\<rparr>, a4,
            lg @ [PX_LOGI ''world: parsing object [{} {} {} {}]'' c'] @ warn))"
    by (rule w(1))
  fix a5
  assume "read_object_end env a4 = Inr (True, a5)"
  then show "world_parse env inb gv =
      Some (Inr (wld\<lparr>world_bsp_tree := Some tree, world_mesh := Some m\<rparr>, input a5,
        lg @ [PX_LOGI ''world: parsing object [{} {} {} {}]'' c'] @ warn))"
    by (rule w(2))
next
  assume f: "\<forall>in3. \<not> filler_chunks in2 in3"
  have "dispatch_section env gv c' wld a3 = Inl underflow"
    using assms(7-9) no_filler_chunks [OF f]
    by (simp add: dispatch_section_def mesh_and_bsp_section_def)
  from world_parse_section_raise [OF assms(1-6) this]
  show "world_parse env inb gv =
      Some (Inl (parser_error ''world'' (Some (buffer_error ''buffer underflow''))
        (Some ''eof reached'')))"
    by (simp add: catch_buffer_error_def underflow_def)
next
  fix f g
  assume "\<forall>in3. \<not> filler_chunks in2 in3"
  from no_filler_chunks [OF this] assms(8,9)
  show "mesh_and_bsp_section (env\<lparr>bsp_tree_parse := f, mesh_parse := g\<rparr>) wld a3 =
      Inl (buffer_error ''buffer underflow'')"
    by (simp add: mesh_and_bsp_section_def underflow_def)
next
  fix in3 e
  assume h: "filler_chunks in2 in3" "bsp_tree_parse env in3 ver = Inl e"
  have "dispatch_section env gv c' wld a3 = Inl e"
    using assms(7-9) filler_skip_chunks [OF h(1)] h(2)
    by (simp add: dispatch_section_def mesh_and_bsp_section_def)
  from world_parse_section_raise [OF assms(1-6) this]
  show "world_parse env inb gv = Some (catch_buffer_error (Inl e))" .
next
  fix in3 e g
  assume h: "filler_chunks in2 in3" "bsp_tree_parse env in3 ver = Inl e"
  from assms(8,9) filler_skip_chunks [OF h(1)] h(2)
  show "mesh_and_bsp_section (env\<lparr>mesh_parse := g\<rparr>) wld a3 = Inl e"
    by (simp add: mesh_and_bsp_section_def)
qed

theorem mesh_and_bsp_section_protocol_witness:
  "world_parse (toc_env demo_toc) (demo_buffer 0) gothic_2 =
     Some (Inr (demo_world, demo_buffer 34, demo_log)) \<and>
   skip_chunks (demo_buffer 19) = Inr (demo_buffer 33) \<and>
   world_parse (toc_env open_toc) (open_buffer 0) gothic_2 =
     Some (Inl (parser_error ''world'' (Some (buffer_error ''buffer underflow''))
       (Some ''eof reached'')))"
proof -
  let ?env = "toc_env demo_toc"
  let ?root = "section_header ''%'' ''oCWorld:zCWorld''"
  let ?mesh = "section_header ''MeshAndBsp'' []"
  let ?pre = "[1, 2, 3, 0, 0, 0, 5, 0, 6, 9, 0xEE, 0, 0, 9, 4, 0, 0, 0, 0] :: 8 word list"
  have r: "read_object_begin ?env empty_object (demo_reader 0 demo_toc []) =
      Inr (?root, demo_reader 0 (tl demo_toc) [34])"
    by (simp add: demo_toc_def demo_begin)
  have c: "class_name ?root = ''oCWorld:zCWorld''"
    by (simp add: section_header_def)
  have e: "read_object_end ?env (demo_reader 11 [(?mesh, 34)] [34]) =
      Inr (False, demo_reader 11 [(?mesh, 34)] [34])"
    by (simp add: demo_end)
  have b: "read_object_begin ?env (section_header ''WayNet'' [])
      (demo_reader 11 [(?mesh, 34)] [34]) = Inr (?mesh, demo_reader 11 [] [34, 34])"
    by (simp add: demo_begin)
  have n: "object_name ?mesh = ''MeshAndBsp''"
    by (simp add: section_header_def)
  have g1: "get_uint (input (demo_reader 11 [] [34, 34])) = Inr (0x4090000, demo_buffer 15)"
    by (simp add: demo_input demo_get_uint)
  note g2 = demo_get_uint(3)
  note p = mesh_and_bsp_section_protocol
    [OF demo_open r c demo_parsed3 [of gothic_2] e b n g1 g2]
  have f: "\<forall>(t, p) \<in> set [(1 :: 16 word, [0xAA, 0xBB :: 8 word])].
      t \<noteq> 0xB060 \<and> length p < 2 ^ 32"
    by simp
  have l: "length ([] :: 8 word list) < 2 ^ 32" by simp
  have bs: "demo_buffer 19 =
      \<lparr>bytes = ?pre @ chunks_bytes [(1, [0xAA, 0xBB])] @ chunk_bytes 0xB060 [] @ [7],
       position = length ?pre\<rparr>"
    by (simp add: demo_buffer_def demo_bytes_def chunk_bytes_def le_bytes_2 le_bytes_4)
  have len: "length (?pre @ chunks_bytes [(1, [0xAA, 0xBB])] @ chunk_bytes 0xB060 []) = 33"
    by (simp add: chunk_bytes_def le_bytes_2 le_bytes_4)
  note any = p [THEN conjunct2, THEN conjunct1, THEN spec, THEN spec, THEN spec, THEN spec,
    THEN mp, THEN mp, THEN mp, OF f l bs]
  from any have ch: "filler_chunks (demo_buffer 19) (demo_buffer 33)"
    by (simp only: len) (simp add: demo_buffer_def)
  from p [THEN conjunct1, rule_format, of "demo_buffer 33"] ch
  have 1: "skip_chunks (demo_buffer 19) = Inr (demo_buffer 33)"
    by simp
  have cl: "close_section ?env ?mesh ((demo_reader 11 [] [34, 34])\<lparr>input := demo_buffer 34\<rparr>) =
      Inr (demo_reader 34 [] [34], [])"
    by (simp add: demo_input_update demo_close_done)
  have f34: "read_object_end ?env (demo_reader 34 [] [34]) = Inr (True, demo_reader 34 [] [])"
    by (simp add: demo_end)
  note q = p [THEN conjunct2, THEN conjunct2, THEN conjunct1, rule_format,
    OF ch demo_tree demo_mesh cl, THEN conjunct2, rule_format, OF f34]
  from q have 2: "world_parse ?env (demo_buffer 0) gothic_2 =
      Some (Inr (demo_world, demo_buffer 34, demo_log))"
    by (simp add: demo_input plain_world_def demo_world_def demo_log_def)
  let ?oenv = "toc_env open_toc"
  let ?a0 = "\<lparr>input = open_buffer 0, reader_state = \<lparr>pending = open_toc, open_ends = []\<rparr>\<rparr>"
  let ?a1 = "\<lparr>input = open_buffer 0,
      reader_state = \<lparr>pending = tl open_toc, open_ends = [40]\<rparr>\<rparr>"
  let ?a3 = "\<lparr>input = open_buffer 0,
      reader_state = \<lparr>pending = [], open_ends = [40, 40]\<rparr>\<rparr>"
  have oo: "archive_reader_open ?oenv (open_buffer 0) = Inr ?a0"
    by (simp add: toc_defs)
  have or: "read_object_begin ?oenv empty_object ?a0 = Inr (?root, ?a1)"
    by (simp add: toc_defs open_toc_def)
  have op: "parsed_sections ?oenv gothic_2 0 ?root (empty_world, ?a1, []) =
      Some (?root, empty_world, ?a1, [])"
    by simp
  have oe: "read_object_end ?oenv ?a1 = Inr (False, ?a1)"
    by (simp add: toc_defs open_buffer_def)
  have ob: "read_object_begin ?oenv ?root ?a1 = Inr (?mesh, ?a3)"
    by (simp add: toc_defs open_toc_def)
  have og1: "get_uint (input ?a3) = Inr (0x4090000, open_buffer 4)"
    by (simp add: buffer_defs open_buffer_def)
  have og2: "get_uint (open_buffer 4) = Inr (0, open_buffer 8)"
    by (simp add: buffer_defs open_buffer_def)
  note po = mesh_and_bsp_section_protocol [OF oo or c op oe ob n og1 og2]
  note 3 = po [THEN conjunct2, THEN conjunct2, THEN conjunct2, THEN conjunct1, THEN mp,
    OF open_no_terminator, THEN conjunct1]
  from 1 2 3 show ?thesis by simp
qed

text \<open>
  C10 fails on the code. On a world whose object tree declares the count \<open>-1\<close>, line 85
  passes the count to \<^verbatim>\<open>reserve\<close>, which takes it for a size above \<^verbatim>\<open>max_size()\<close> and
  throws \<^verbatim>\<open>std::length_error\<close>; the handler of \<^verbatim>\<open>world::parse\<close> lets it pass and the
  way-net that follows is not parsed.
\<close>

theorem world_parse_negative_count:
  "world_parse (toc_env negative_toc) negative_buffer gothic_2 =
     Some (Inl (length_error ''vector::reserve''))"
proof -
  let ?env = "toc_env negative_toc"
  let ?root = "section_header ''%'' ''oCWorld:zCWorld''"
  let ?a1 = "\<lparr>input = negative_buffer,
      reader_state = \<lparr>pending = tl negative_toc, open_ends = [5]\<rparr>\<rparr>"
  let ?a2 = "\<lparr>input = negative_buffer,
      reader_state = \<lparr>pending = [(section_header ''WayNet'' [], 5)], open_ends = [4, 5]\<rparr>\<rparr>"
  have t: "world_parse_try ?env negative_buffer gothic_2 =
      section_loop ?env gothic_2 ?root (empty_world, ?a1, [])"
    by (simp add: world_parse_try_def toc_defs negative_toc_def empty_object_def)
  have e: "read_object_end ?env ?a1 = Inr (False, ?a1)"
    by (simp add: toc_defs negative_buffer_def)
  have b: "read_object_begin ?env ?root ?a1 = Inr (section_header ''VobTree'' [], ?a2)"
    by (simp add: toc_defs negative_toc_def)
  have i: "read_int ?env ?a2 = Inr (- 1, ?a2\<lparr>input := negative_buffer\<lparr>position := 4\<rparr>\<rparr>)"
    by (simp add: toc_defs buffer_defs negative_buffer_def)
  have "sint (- 1 :: 32 word) < 0" by simp
  with i have "vob_tree_section ?env gothic_2 empty_world ?a2 =
      Inl (length_error ''vector::reserve'')"
    by (rule vob_tree_section_negative)
  with b have "section_body ?env gothic_2 ?root (empty_world, ?a1, []) =
      Inl (length_error ''vector::reserve'')"
    by (simp add: section_body_def dispatch_section_def section_header_def)
  with e have "section_loop ?env gothic_2 ?root (empty_world, ?a1, []) =
      Some (Inl (length_error ''vector::reserve''))"
    by (rule section_loop_raise)
  with t show ?thesis
    by (simp add: world_parse_def catch_buffer_error_def)
qed

end
